theory Spec2Isabelle
  imports Complex_Main "HOL-Library.AList" "HOL-Library.Multiset"
begin

section \<open>JavaScript values used by the layout code\<close>

text \<open>
  Sizes and coordinates are JavaScript numbers.  They are modelled as real numbers
  extended by \<open>NaN\<close>; rounding and the infinities are left out.  A comparison with
  \<open>NaN\<close> is false, arithmetic with \<open>NaN\<close> gives \<open>NaN\<close>.  A field that may be
  \<open>undefined\<close> is an \<open>option\<close>.
\<close>

datatype jsnum = NaN | Num real

fun js_sub :: "jsnum \<Rightarrow> jsnum \<Rightarrow> jsnum" where
  "js_sub (Num a) (Num b) = Num (a - b)"
| "js_sub _ _ = NaN"

fun js_add :: "jsnum \<Rightarrow> jsnum \<Rightarrow> jsnum" where
  "js_add (Num a) (Num b) = Num (a + b)"
| "js_add _ _ = NaN"

fun js_abs :: "jsnum \<Rightarrow> jsnum" where
  "js_abs (Num a) = Num \<bar>a\<bar>"
| "js_abs NaN = NaN"

fun js_lt :: "jsnum \<Rightarrow> jsnum \<Rightarrow> bool" where
  "js_lt (Num a) (Num b) = (a < b)"
| "js_lt _ _ = False"

text \<open>A number read from a field that may be \<open>undefined\<close>, as an operand of arithmetic.\<close>

fun toNum :: "jsnum option \<Rightarrow> jsnum" where
  "toNum None = NaN"
| "toNum (Some a) = a"

text \<open>
  The errors that the code can throw: a \<open>TypeError\<close> when a property of \<open>undefined\<close> is
  read or a value that is not a function is called, and a \<open>RangeError\<close> when the call
  stack is exhausted.
\<close>

datatype error = TypeError | RangeError

section \<open>The resize callback of \<open>DagLayout\<close> (events.js)\<close>

text \<open>
  The component state (\<open>node_id\<close> is the field \<open>id\<close>, \<open>layout_size\<close> the field \<open>size\<close>):
  \<open>state.nodes\<close> maps a node id to its record, whose \<open>width\<close> and
  \<open>height\<close> are \<open>undefined\<close> until they are populated.  The fields of a node that the
  callback does not read are kept in the record's extension.
\<close>

record NodeOut =
  node_id :: string
  children :: "string list"
  width :: "jsnum option"
  height :: "jsnum option"

record ('n, 'e, 'o) DagLayoutState =
  shouldLayout :: bool
  nodes :: "string \<rightharpoonup> 'n NodeOut_scheme"
  edges :: "string \<rightharpoonup> 'e"
  ordering :: "'o list"
  layout_size :: "jsnum \<times> jsnum"

definition kNodeResizeTolerance :: jsnum where
  "kNodeResizeTolerance = Num 5"

text \<open>
  \<open>_onNodeResize(nodeId, width, height)\<close>.  Reading \<open>this.state.nodes[nodeId].width\<close> of a
  node that is not in the state throws.  The early \<open>return\<close> leaves the state as it is;
  otherwise the deep merge stores the two reported numbers in the node's record and
  \<open>shouldLayout\<close> is set.
\<close>

definition withinTolerance :: "jsnum option \<Rightarrow> jsnum option \<Rightarrow> jsnum \<Rightarrow> jsnum \<Rightarrow> bool" where
  "withinTolerance prevWidth prevHeight w h =
     (case (prevWidth, prevHeight) of
        (Some pw, Some ph) \<Rightarrow>
          js_lt (js_abs (js_sub pw w)) kNodeResizeTolerance \<and>
          js_lt (js_abs (js_sub ph h)) kNodeResizeTolerance
      | _ \<Rightarrow> False)"

definition onNodeResize ::
  "('n, 'e, 'o) DagLayoutState \<Rightarrow> string \<Rightarrow> jsnum \<Rightarrow> jsnum \<Rightarrow>
   error + ('n, 'e, 'o) DagLayoutState" where
  "onNodeResize st nodeId w h =
     (case nodes st nodeId of
        None \<Rightarrow> Inl TypeError
      | Some n \<Rightarrow>
          if withinTolerance (width n) (height n) w h then Inr st
          else Inr (st\<lparr>nodes := (nodes st)(nodeId \<mapsto> n\<lparr>width := Some w, height := Some h\<rparr>),
                       shouldLayout := True\<rparr>))"

text \<open>A state with one measured leaf, used to run the callback.\<close>

definition leafA :: NodeOut where
  "leafA = \<lparr>node_id = ''a'', children = [], width = Some (Num 100), height = Some (Num 40)\<rparr>"

definition stateA :: "(unit, unit, unit) DagLayoutState" where
  "stateA = \<lparr>shouldLayout = False, nodes = [''a'' \<mapsto> leafA], edges = Map.empty,
              ordering = [], layout_size = (Num 0, Num 0)\<rparr>"

section \<open>The hierarchy index: \<open>GraphProperties\<close> (layout_archive.js)\<close>

text \<open>
  A node id is a string; a value that may also be \<open>null\<close> (the root context) or
  \<open>undefined\<close> (a lookup that found nothing) is a \<open>jsref\<close>.  Used as a property key,
  such a value is converted to a string as JavaScript does.
\<close>

datatype jsref = Undefined | Null | Str string

fun key_of :: "jsref \<Rightarrow> string" where
  "key_of Undefined = ''undefined''"
| "key_of Null = ''null''"
| "key_of (Str s) = s"

text \<open>
  The tables of the code are plain objects, and a plain object inherits the properties of
  \<open>Object.prototype\<close>, whose names are listed here: for such a name \<open>name in object\<close>
  is true and \<open>object[name]\<close> is the inherited value (a function, or the prototype
  itself for \<open>__proto__\<close>) unless the object has a property of its own under that name.
  The tests \<open>in\<close> of the code, and the lookups that the code makes in a table under a key
  that it may not yet hold, are modelled with the inherited names; every other lookup
  reads a table under a key that the table holds as its own.  The name \<open>__proto__\<close> is
  never used as an id in what is proved, since storing under it replaces the prototype.
\<close>

definition inheritedNames :: "string list" where
  "inheritedNames =
     [''constructor'', ''__defineGetter__'', ''__defineSetter__'', ''hasOwnProperty'',
      ''__lookupGetter__'', ''__lookupSetter__'', ''isPrototypeOf'', ''propertyIsEnumerable'',
      ''toString'', ''valueOf'', ''__proto__'', ''toLocaleString'']"

definition inherited :: "string \<Rightarrow> bool" where
  "inherited name = (name \<in> set inheritedNames)"

datatype orientation = Horizontal | Vertical

datatype sideName = SideLeft | SideRight | SideUp | SideDown

datatype portSide = NORTH | SOUTH | EAST | WEST

text \<open>
  \<open>DagNodeLayoutSpec\<close>: the fields \<open>id\<close>, \<open>children\<close>, \<open>width\<close> and \<open>height\<close> of
  \<open>NodeOut\<close>, the orientation, and the position that the layout writes back.
\<close>

record DagNodeLayoutSpec = NodeOut +
  orientation :: orientation
  node_x :: "jsnum option"
  node_y :: "jsnum option"
  node_z :: "jsnum option"

record 'p DagEdgeLayoutSpec =
  edge_id :: string
  edgeStartId :: string
  edgeEndId :: string
  startSide :: "sideName option"
  endSide :: "sideName option"
  edge_points :: "'p list option"
  edge_z :: "jsnum option"

text \<open>
  A stored hierarchy height is a number or \<open>NaN\<close> (\<open>None\<close>, what \<open>Math.max\<close> gives
  when one of its arguments is \<open>undefined\<close>).
\<close>

type_synonym heights = "string \<rightharpoonup> nat option"

record 'p GraphProperties =
  gNodes :: "string \<rightharpoonup> DagNodeLayoutSpec"
  gNodeParents :: "string \<rightharpoonup> jsref"
  gNodeHierarchyHeights :: heights
  gEdges :: "(string \<times> 'p DagEdgeLayoutSpec) list"

text \<open>
  \<open>xs.forEach(f)\<close> for a callback that updates a state, may throw, and may not return
  (\<open>None\<close>).
\<close>

fun forEach :: "('s \<Rightarrow> 'a \<Rightarrow> (error + 's) option) \<Rightarrow> 's \<Rightarrow> 'a list \<Rightarrow> (error + 's) option" where
  "forEach f s [] = Some (Inr s)"
| "forEach f s (a # as) =
     (case f s a of
        None \<Rightarrow> None
      | Some (Inl e) \<Rightarrow> Some (Inl e)
      | Some (Inr s') \<Rightarrow> forEach f s' as)"

text \<open>\<open>this._nodeHierarchyHeights[childId]\<close> as an argument of \<open>Math.max\<close>.\<close>

definition storedHeight :: "heights \<Rightarrow> string \<Rightarrow> nat option" where
  "storedHeight h c = (case h c of Some (Some k) \<Rightarrow> Some k | _ \<Rightarrow> None)"

text \<open>\<open>Math.max(...hs) + 1\<close> for a list \<open>hs\<close> that is not empty.\<close>

definition maxPlus1 :: "nat option list \<Rightarrow> nat option" where
  "maxPlus1 hs = (case those hs of None \<Rightarrow> None | Some ks \<Rightarrow> Some (Max (set ks) + 1))"

text \<open>
  \<open>_setHierarchyHeight(nodeId)\<close>.  The recursion has no bound in the source, but the call
  stack of the engine has: the first argument is the number of nested calls that the
  stack still holds, and a call beyond it throws a \<open>RangeError\<close>.  The test
  \<open>nodeId in this._nodeHierarchyHeights\<close> is also true of an inherited name, for which
  the call returns at once and stores nothing.  \<open>this._nodes[nodeId].children\<close> throws
  when the id names no node.
\<close>

fun setHierarchyHeight ::
  "nat \<Rightarrow> (string \<rightharpoonup> DagNodeLayoutSpec) \<Rightarrow> heights \<Rightarrow> string \<Rightarrow> (error + heights) option" where
  "setHierarchyHeight 0 ns h nodeId = Some (Inl RangeError)"
| "setHierarchyHeight (Suc depth) ns h nodeId =
     (if h nodeId \<noteq> None \<or> inherited nodeId then Some (Inr h)
      else case ns nodeId of
        None \<Rightarrow> Some (Inl TypeError)
      | Some n \<Rightarrow>
          if children n = [] then Some (Inr (h(nodeId \<mapsto> Some 0)))
          else (case forEach (setHierarchyHeight depth ns) h (children n) of
                  Some (Inr h') \<Rightarrow>
                    Some (Inr (h'(nodeId \<mapsto> maxPlus1 (map (storedHeight h') (children n)))))
                | r \<Rightarrow> r))"

text \<open>
  The keys of an object in the order of \<open>Object.keys\<close>: the array indices in ascending
  numeric order, then the other keys in the order of their first insertion.
\<close>

definition digitsValue :: "string \<Rightarrow> nat" where
  "digitsValue s = fold (\<lambda>c n. 10 * n + (of_char c - 48)) s 0"

definition isArrayIndex :: "string \<Rightarrow> bool" where
  "isArrayIndex s =
     (s \<noteq> [] \<and> list_all (\<lambda>c. c \<in> set ''0123456789'') s \<and>
      (s = ''0'' \<or> hd s \<noteq> CHR ''0'') \<and> digitsValue s < 4294967295)"

definition objectKeys :: "(string \<times> 'v) list \<Rightarrow> string list" where
  "objectKeys al =
     sort_key digitsValue (filter isArrayIndex (map fst al)) @
     filter (\<lambda>k. \<not> isArrayIndex k) (map fst al)"

text \<open>The three maps that the constructor fills before it computes the heights.\<close>

definition nodesMap :: "DagNodeLayoutSpec list \<Rightarrow> (string \<rightharpoonup> DagNodeLayoutSpec)" where
  "nodesMap ns = fold (\<lambda>n m. m(node_id n \<mapsto> n)) ns Map.empty"

definition parentsMap :: "DagNodeLayoutSpec list \<Rightarrow> (string \<rightharpoonup> jsref)" where
  "parentsMap ns =
     fold (\<lambda>n m. fold (\<lambda>childId m'. m'(childId \<mapsto> Str (node_id n))) (children n) m) ns
       (fold (\<lambda>n m. m(node_id n \<mapsto> Null)) ns Map.empty)"

definition edgesObject :: "'p DagEdgeLayoutSpec list \<Rightarrow> (string \<times> 'p DagEdgeLayoutSpec) list" where
  "edgesObject es = fold (\<lambda>e al. AList.update (edge_id e) e al) es []"

text \<open>
  The constructor of \<open>GraphProperties\<close>; the first argument is the depth of the call
  stack that each call of \<open>_setHierarchyHeight\<close> from the constructor finds.
\<close>

definition newGraphProperties ::
  "nat \<Rightarrow> DagNodeLayoutSpec list \<Rightarrow> 'p DagEdgeLayoutSpec list \<Rightarrow> (error + 'p GraphProperties) option" where
  "newGraphProperties depth ns es =
     (case forEach (setHierarchyHeight depth (nodesMap ns)) Map.empty (map node_id ns) of
        None \<Rightarrow> None
      | Some (Inl e) \<Rightarrow> Some (Inl e)
      | Some (Inr h) \<Rightarrow>
          Some (Inr \<lparr>gNodes = nodesMap ns, gNodeParents = parentsMap ns,
                     gNodeHierarchyHeights = h, gEdges = edgesObject es\<rparr>))"

definition getEdgeIds :: "'p GraphProperties \<Rightarrow> string list" where
  "getEdgeIds g = objectKeys (gEdges g)"

definition getHierarchyHeight :: "'p GraphProperties \<Rightarrow> jsref \<Rightarrow> nat option" where
  "getHierarchyHeight g nodeId = storedHeight (gNodeHierarchyHeights g) (key_of nodeId)"

definition getParent :: "'p GraphProperties \<Rightarrow> jsref \<Rightarrow> jsref" where
  "getParent g nodeId = (case gNodeParents g (key_of nodeId) of None \<Rightarrow> Undefined | Some p \<Rightarrow> p)"

definition getOrientation :: "'p GraphProperties \<Rightarrow> jsref \<Rightarrow> error + orientation" where
  "getOrientation g nodeId =
     (if nodeId = Null then Inr Vertical
      else case gNodes g (key_of nodeId) of
        None \<Rightarrow> Inl TypeError
      | Some n \<Rightarrow> Inr (orientation n))"

fun sideMap :: "sideName \<Rightarrow> portSide" where
  "sideMap SideLeft = WEST"
| "sideMap SideRight = EAST"
| "sideMap SideUp = NORTH"
| "sideMap SideDown = SOUTH"

text \<open>
  \<open>getStartSide\<close>, \<open>getEndSide\<close>, \<open>getStartId\<close> and \<open>getEndId\<close> read the edge stored
  under an id; they are called with the ids of \<open>getEdgeIds\<close> only.  A side that the edge
  does not give is \<open>undefined\<close>.
\<close>

definition getStartSide :: "'p GraphProperties \<Rightarrow> string \<Rightarrow> error + portSide option" where
  "getStartSide g edgeId =
     (case map_of (gEdges g) edgeId of
        None \<Rightarrow> Inl TypeError
      | Some e \<Rightarrow> Inr (map_option sideMap (startSide e)))"

definition getEndSide :: "'p GraphProperties \<Rightarrow> string \<Rightarrow> error + portSide option" where
  "getEndSide g edgeId =
     (case map_of (gEdges g) edgeId of
        None \<Rightarrow> Inl TypeError
      | Some e \<Rightarrow> Inr (map_option sideMap (endSide e)))"

definition getStartId :: "'p GraphProperties \<Rightarrow> string \<Rightarrow> error + string" where
  "getStartId g edgeId =
     (case map_of (gEdges g) edgeId of None \<Rightarrow> Inl TypeError | Some e \<Rightarrow> Inr (edgeStartId e))"

definition getEndId :: "'p GraphProperties \<Rightarrow> string \<Rightarrow> error + string" where
  "getEndId g edgeId =
     (case map_of (gEdges g) edgeId of None \<Rightarrow> Inl TypeError | Some e \<Rightarrow> Inr (edgeEndId e))"

text \<open>
  The comparison of two hierarchy heights: false when either is \<open>undefined\<close> or \<open>NaN\<close>.
\<close>

definition heightLess :: "nat option \<Rightarrow> nat option \<Rightarrow> bool" where
  "heightLess a b = (case (a, b) of (Some i, Some j) \<Rightarrow> i < j | _ \<Rightarrow> False)"

text \<open>
  The children relation of a node map, child first: the pairs \<open>(c, v)\<close> where \<open>c\<close> is
  listed among the children of the node stored under \<open>v\<close>.
\<close>

definition childRel :: "(string \<rightharpoonup> DagNodeLayoutSpec) \<Rightarrow> (string \<times> string) set" where
  "childRel m = {(c, v). \<exists>n. m v = Some n \<and> c \<in> set (children n)}"

definition childrenKnown :: "(string \<rightharpoonup> DagNodeLayoutSpec) \<Rightarrow> bool" where
  "childrenKnown m = (\<forall>v n c. m v = Some n \<longrightarrow> c \<in> set (children n) \<longrightarrow> m c \<noteq> None)"

section \<open>The edge slicer: \<open>ELKEdgeSegment\<close> and \<open>getEdgeSegments\<close> (layout_archive.js)\<close>

text \<open>A number in a template string: its decimal digits, after a minus sign when negative.\<close>

fun stringOfNat :: "nat \<Rightarrow> string" where
  "stringOfNat n =
     (if n < 10 then [''0123456789'' ! n]
      else stringOfNat (n div 10) @ [''0123456789'' ! (n mod 10)])"

declare stringOfNat.simps [simp del]

definition stringOfInt :: "int \<Rightarrow> string" where
  "stringOfInt i = (if i < 0 then ''-'' @ stringOfNat (nat (- i)) else stringOfNat (nat i))"

text \<open>\<open>getPortId(node, portNum, isInput)\<close>.\<close>

definition getPortId :: "jsref \<Rightarrow> int \<Rightarrow> bool \<Rightarrow> string" where
  "getPortId node portNum isInput =
     key_of node @ ''_'' @ stringOfInt portNum @ (if isInput then ''i'' else ''o'')"

record ELKEdgeSegment =
  seg_index :: "nat option"
  seg_edgeId :: string
  seg_startPortId :: string
  seg_endPortId :: string
  seg_parentNodeId :: jsref

text \<open>
  The loop of the constructor of \<open>ELKEdgeSegment\<close>, which walks the two nodes of a
  segment up to their lowest common ancestor.  \<open>None\<close> says that the loop does not end.
\<close>

partial_function (option) segmentParentLoop ::
  "'p GraphProperties \<Rightarrow> jsref \<Rightarrow> jsref \<Rightarrow> jsref option" where
  "segmentParentLoop g startNodeId endNodeId =
     (if startNodeId = endNodeId then Some startNodeId
      else if startNodeId = Null \<or>
              (endNodeId \<noteq> Null \<and>
               heightLess (getHierarchyHeight g endNodeId) (getHierarchyHeight g startNodeId))
      then segmentParentLoop g startNodeId (getParent g endNodeId)
      else if endNodeId = Null \<or>
              heightLess (getHierarchyHeight g startNodeId) (getHierarchyHeight g endNodeId)
      then segmentParentLoop g (getParent g startNodeId) endNodeId
      else segmentParentLoop g (getParent g startNodeId) (getParent g endNodeId))"

text \<open>
  \<open>new ELKEdgeSegment(edgeId, startNodeId, startPortId, endNodeId, endPortId, graph)\<close>;
  \<open>kRootNode\<close> is a constant of the module that the file does not define.
\<close>

definition newELKEdgeSegment ::
  "string \<Rightarrow> 'p GraphProperties \<Rightarrow> string \<Rightarrow> jsref \<Rightarrow> string \<Rightarrow> jsref \<Rightarrow> string \<Rightarrow>
   ELKEdgeSegment option" where
  "newELKEdgeSegment kRootNode g edgeId startNodeId startPortId endNodeId endPortId =
     (case segmentParentLoop g startNodeId endNodeId of
        None \<Rightarrow> None
      | Some p \<Rightarrow>
          Some \<lparr>seg_index = None, seg_edgeId = edgeId,
                seg_startPortId = startPortId, seg_endPortId = endPortId,
                seg_parentNodeId = (if p = Null then Str kRootNode else p)\<rparr>)"

record ElkEdge =
  elkEdge_id :: string
  sources :: "string list"
  targets :: "string list"
  notElk_edgeId :: string
  notElk_index :: "nat option"
  notElk_z :: jsnum

definition toElkEdge :: "ELKEdgeSegment \<Rightarrow> ElkEdge" where
  "toElkEdge s =
     \<lparr>elkEdge_id = seg_startPortId s @ seg_endPortId s,
      sources = [seg_startPortId s], targets = [seg_endPortId s],
      notElk_edgeId = seg_edgeId s, notElk_index = seg_index s, notElk_z = Num 0\<rparr>"

text \<open>
  The variables of \<open>getEdgeSegments\<close> while one edge is sliced: the locals of the
  callback and the three tables.  A table is a \<open>Proxy\<close> whose \<open>get\<close> gives
  \<open>name in target ? target[name] : (target[name] = [])\<close>: the array stored under the
  name, a new empty array for a name that is new, and the inherited value for an
  inherited name.  A table is modelled by the arrays under the names that are not
  inherited.
\<close>

record EdgeWalk =
  fromEdgeSegments :: "ELKEdgeSegment list"
  toEdgeSegments :: "ELKEdgeSegment list"
  startId :: jsref
  endId :: jsref
  firstInPortAssigned :: bool
  edgeSegments :: "string \<Rightarrow> ElkEdge list"
  outPorts :: "string \<Rightarrow> portSide option list"
  inPorts :: "string \<Rightarrow> portSide option list"

text \<open>
  \<open>table[k].push(a)\<close>: \<open>push\<close> appends to the array under a name that is not inherited;
  under an inherited name the value has no \<open>push\<close>, and the call throws.  Where the code
  reads \<open>table[k].length\<close> under an inherited name it reads a property of the inherited
  value, not the length of an array as the model does; the slicing of an edge that has
  read it cannot complete, since it completes only after a \<open>push\<close> under the name of each
  node it has visited.
\<close>

definition push :: "(string \<Rightarrow> 'a list) \<Rightarrow> string \<Rightarrow> 'a \<Rightarrow> (string \<Rightarrow> 'a list)" where
  "push table k a = table(k := table k @ [a])"

definition tablePush ::
  "(string \<Rightarrow> 'a list) \<Rightarrow> string \<Rightarrow> 'a \<Rightarrow> error + (string \<Rightarrow> 'a list)" where
  "tablePush table k a = (if inherited k then Inl TypeError else Inr (push table k a))"

fun inMap :: "orientation \<Rightarrow> portSide" where
  "inMap Horizontal = WEST"
| "inMap Vertical = SOUTH"

fun outMap :: "orientation \<Rightarrow> portSide" where
  "outMap Horizontal = EAST"
| "outMap Vertical = NORTH"

text \<open>
  The side pushed on \<open>inPorts[endId]\<close>:
  \<open>firstInPortAssigned ? inMap[graph.getOrientation(graph.getParent(endId))] : graph.getEndSide(edgeId)\<close>.
\<close>

definition inPortSide :: "'p GraphProperties \<Rightarrow> string \<Rightarrow> EdgeWalk \<Rightarrow> error + portSide option" where
  "inPortSide g edgeId w =
     (if firstInPortAssigned w
      then (case getOrientation g (getParent g (endId w)) of
              Inl e \<Rightarrow> Inl e
            | Inr ori \<Rightarrow> Inr (Some (inMap ori)))
      else getEndSide g edgeId)"

text \<open>
  The end of the loop: the chain \<open>fromEdgeSegments.concat(toEdgeSegments.reverse())\<close>
  gets its indices, and every segment is pushed on the table entry of its parent node.
\<close>

definition setIndices :: "ELKEdgeSegment list \<Rightarrow> ELKEdgeSegment list" where
  "setIndices chain = map (\<lambda>(i, s). s\<lparr>seg_index := Some i\<rparr>) (enumerate 0 chain)"

fun pushSegments ::
  "(string \<Rightarrow> ElkEdge list) \<Rightarrow> ELKEdgeSegment list \<Rightarrow> error + (string \<Rightarrow> ElkEdge list)" where
  "pushSegments table [] = Inr table"
| "pushSegments table (s # chain) =
     (case tablePush table (key_of (seg_parentNodeId s)) (toElkEdge s) of
        Inl e \<Rightarrow> Inl e
      | Inr table' \<Rightarrow> pushSegments table' chain)"

datatype 'a step = Break 'a | Continue 'a

text \<open>
  One iteration of the \<open>while (true)\<close> loop that slices an edge.  The first branch is
  the closing condition, the second adds a segment from the parent of the end node, the
  third a segment to the parent of the start node.  After \<open>Break\<close> the two lists hold
  the chain with its indices (\<open>reverse\<close> works in place).
\<close>

definition sliceStep ::
  "string \<Rightarrow> 'p GraphProperties \<Rightarrow> string \<Rightarrow> EdgeWalk \<Rightarrow> (error + EdgeWalk step) option" where
  "sliceStep kRootNode g edgeId w =
     (if getParent g (startId w) = getParent g (endId w) then
        (case newELKEdgeSegment kRootNode g edgeId
                (startId w)
                (getPortId (startId w) (int (length (outPorts w (key_of (startId w)))) - 1) False)
                (endId w)
                (getPortId (endId w) (int (length (inPorts w (key_of (endId w))))) True) of
           None \<Rightarrow> None
         | Some seg \<Rightarrow>
             (case inPortSide g edgeId w of
                Inl e \<Rightarrow> Some (Inl e)
              | Inr side \<Rightarrow>
                  (case tablePush (inPorts w) (key_of (endId w)) side of
                     Inl e \<Rightarrow> Some (Inl e)
                   | Inr ins \<Rightarrow>
                       (let chain =
                              setIndices ((fromEdgeSegments w @ [seg]) @ rev (toEdgeSegments w))
                        in case pushSegments (edgeSegments w) chain of
                             Inl e \<Rightarrow> Some (Inl e)
                           | Inr segs \<Rightarrow>
                               Some (Inr (Break (w\<lparr>
                                 fromEdgeSegments :=
                                   take (Suc (length (fromEdgeSegments w))) chain,
                                 toEdgeSegments :=
                                   drop (Suc (length (fromEdgeSegments w))) chain,
                                 inPorts := ins,
                                 edgeSegments := segs\<rparr>)))))))
      else if getParent g (startId w) = Null \<or>
              (getParent g (endId w) \<noteq> Null \<and>
               heightLess (getHierarchyHeight g (getParent g (endId w)))
                          (getHierarchyHeight g (getParent g (startId w))))
      then
        (case newELKEdgeSegment kRootNode g edgeId
                (getParent g (endId w))
                (getPortId (getParent g (endId w))
                   (int (length (inPorts w (key_of (getParent g (endId w)))))) True)
                (endId w)
                (getPortId (endId w) (int (length (inPorts w (key_of (endId w))))) True) of
           None \<Rightarrow> None
         | Some seg \<Rightarrow>
             (case inPortSide g edgeId w of
                Inl e \<Rightarrow> Some (Inl e)
              | Inr side \<Rightarrow>
                  (case tablePush (inPorts w) (key_of (endId w)) side of
                     Inl e \<Rightarrow> Some (Inl e)
                   | Inr ins \<Rightarrow>
                       Some (Inr (Continue (w\<lparr>
                         toEdgeSegments := toEdgeSegments w @ [seg],
                         inPorts := ins,
                         firstInPortAssigned := True,
                         endId := getParent g (endId w)\<rparr>))))))
      else
        (case newELKEdgeSegment kRootNode g edgeId
                (startId w)
                (getPortId (startId w) (int (length (outPorts w (key_of (startId w)))) - 1) False)
                (getParent g (startId w))
                (getPortId (getParent g (startId w))
                   (int (length (outPorts w (key_of (getParent g (startId w)))))) False) of
           None \<Rightarrow> None
         | Some seg \<Rightarrow>
             (case getOrientation g (getParent g (startId w)) of
                Inl e \<Rightarrow> Some (Inl e)
              | Inr ori \<Rightarrow>
                  (case tablePush (outPorts w) (key_of (getParent g (startId w)))
                          (Some (outMap ori)) of
                     Inl e \<Rightarrow> Some (Inl e)
                   | Inr outs \<Rightarrow>
                       Some (Inr (Continue (w\<lparr>
                         fromEdgeSegments := fromEdgeSegments w @ [seg],
                         startId := getParent g (startId w),
                         outPorts := outs\<rparr>)))))))"

text \<open>The loop; \<open>None\<close> says that it does not end.\<close>

partial_function (option) sliceLoop ::
  "string \<Rightarrow> 'p GraphProperties \<Rightarrow> string \<Rightarrow> EdgeWalk \<Rightarrow> (error + EdgeWalk) option" where
  "sliceLoop kRootNode g edgeId w =
     (case sliceStep kRootNode g edgeId w of
        None \<Rightarrow> None
      | Some (Inl e) \<Rightarrow> Some (Inl e)
      | Some (Inr (Break w')) \<Rightarrow> Some (Inr w')
      | Some (Inr (Continue w')) \<Rightarrow> sliceLoop kRootNode g edgeId w')"

text \<open>
  The callback of \<open>graph.getEdgeIds().forEach\<close>: the locals are initialised, the port
  of the start node is pushed, and the loop runs.  The state that it is given and that
  it returns is the three tables.
\<close>

type_synonym sliceTables =
  "(string \<Rightarrow> ElkEdge list) \<times> (string \<Rightarrow> portSide option list) \<times> (string \<Rightarrow> portSide option list)"

definition startWalk :: "'p GraphProperties \<Rightarrow> string \<Rightarrow> sliceTables \<Rightarrow> error + EdgeWalk" where
  "startWalk g edgeId tables =
     (case tables of (segs, outs, ins) \<Rightarrow>
        (case getStartId g edgeId of
           Inl e \<Rightarrow> Inl e
         | Inr s \<Rightarrow>
             (case getEndId g edgeId of
                Inl e \<Rightarrow> Inl e
              | Inr t \<Rightarrow>
                  (case getStartSide g edgeId of
                     Inl e \<Rightarrow> Inl e
                   | Inr side \<Rightarrow>
                       (case tablePush outs s side of
                          Inl e \<Rightarrow> Inl e
                        | Inr outs' \<Rightarrow>
                            Inr \<lparr>fromEdgeSegments = [], toEdgeSegments = [],
                                 startId = Str s, endId = Str t, firstInPortAssigned = False,
                                 edgeSegments = segs, outPorts = outs',
                                 inPorts = ins\<rparr>)))))"

definition sliceEdge ::
  "string \<Rightarrow> 'p GraphProperties \<Rightarrow> sliceTables \<Rightarrow> string \<Rightarrow> (error + sliceTables) option" where
  "sliceEdge kRootNode g tables edgeId =
     (case startWalk g edgeId tables of
        Inl e \<Rightarrow> Some (Inl e)
      | Inr w \<Rightarrow>
          (case sliceLoop kRootNode g edgeId w of
             None \<Rightarrow> None
           | Some (Inl e) \<Rightarrow> Some (Inl e)
           | Some (Inr w') \<Rightarrow> Some (Inr (edgeSegments w', outPorts w', inPorts w'))))"

definition getEdgeSegments :: "string \<Rightarrow> 'p GraphProperties \<Rightarrow> (error + sliceTables) option" where
  "getEdgeSegments kRootNode g =
     forEach (sliceEdge kRootNode g) (\<lambda>_. [], \<lambda>_. [], \<lambda>_. []) (getEdgeIds g)"

section \<open>The graph given to the layout engine: \<open>createElkNode\<close> and \<open>getElkGraph\<close>\<close>

text \<open>
  An ELK node as \<open>createElkNode\<close> builds it.  The children of a node are references to
  the objects of the table \<open>elkNodes\<close>, which holds one object for an id: a reference is
  the id.  Of the properties, the direction and the two spacings (both \<open>kNodeMargin\<close>, a
  constant that the file does not define) are kept; the algorithm and the port
  constraints are the same text for every node.
\<close>

record ElkPort =
  port_id :: string
  port_side :: "portSide option"

record ElkNodeObj =
  elk_id :: string
  elk_direction :: string
  elk_nodeMargin :: jsnum
  elk_edges :: "ElkEdge list"
  elk_ports :: "ElkPort list"
  elk_children :: "string list"
  elk_z :: jsnum
  elk_width :: "jsnum option"
  elk_height :: "jsnum option"

text \<open>\<open>-graph.getHierarchyHeight(node.id)\<close>.\<close>

definition negHeight :: "nat option \<Rightarrow> jsnum" where
  "negHeight h = (case h of None \<Rightarrow> NaN | Some k \<Rightarrow> Num (- real k))"

definition makePorts :: "string \<Rightarrow> portSide option list \<Rightarrow> bool \<Rightarrow> ElkPort list" where
  "makePorts nodeId sides isInput =
     map (\<lambda>(i, portSide). \<lparr>port_id = getPortId (Str nodeId) (int i) isInput, port_side = portSide\<rparr>)
       (enumerate 0 sides)"

definition createElkNode ::
  "jsnum \<Rightarrow> DagNodeLayoutSpec \<Rightarrow> portSide option list \<Rightarrow> portSide option list \<Rightarrow>
   'p GraphProperties \<Rightarrow> ElkNodeObj" where
  "createElkNode kNodeMargin n outs ins g =
     \<lparr>elk_id = node_id n,
      elk_direction = (if orientation n = Vertical then ''UP'' else ''RIGHT''),
      elk_nodeMargin = kNodeMargin,
      elk_edges = [],
      elk_ports = makePorts (node_id n) ins True @ makePorts (node_id n) outs False,
      elk_children = [],
      elk_z = negHeight (getHierarchyHeight g (Str (node_id n))),
      elk_width = (if width n \<noteq> None then width n else None),
      elk_height = (if width n \<noteq> None then height n else None)\<rparr>"

record ElkGraph =
  root_id :: string
  root_direction :: string
  root_nodeMargin :: jsnum
  root_children :: "string list"
  root_edges :: "ElkEdge list"
  elkNodes :: "string \<rightharpoonup> ElkNodeObj"

text \<open>
  The three passes of \<open>getElkGraph\<close> over the nodes.  In the first,
  \<open>outPorts[node.id]\<close> and \<open>inPorts[node.id]\<close> of a node whose id is an inherited name are
  the inherited value, which has no \<open>forEach\<close>: \<open>createElkNode\<close> throws.
\<close>

definition createElkNodes ::
  "jsnum \<Rightarrow> 'p GraphProperties \<Rightarrow> sliceTables \<Rightarrow> DagNodeLayoutSpec list \<Rightarrow>
   (error + (string \<rightharpoonup> ElkNodeObj)) option" where
  "createElkNodes kNodeMargin g tables ns =
     (case tables of (segs, outs, ins) \<Rightarrow>
        forEach
          (\<lambda>m n. if inherited (node_id n) then Some (Inl TypeError)
                 else Some (Inr (m(node_id n \<mapsto>
                        createElkNode kNodeMargin n (outs (node_id n)) (ins (node_id n)) g))))
          Map.empty ns)"

definition assignToParent ::
  "'p GraphProperties \<Rightarrow> (string \<rightharpoonup> ElkNodeObj) \<Rightarrow> DagNodeLayoutSpec \<Rightarrow>
   (error + (string \<rightharpoonup> ElkNodeObj)) option" where
  "assignToParent g m n =
     (if getParent g (Str (node_id n)) \<noteq> Null then
        (case m (key_of (getParent g (Str (node_id n)))) of
           None \<Rightarrow> Some (Inl TypeError)
         | Some parent \<Rightarrow>
             Some (Inr (m(key_of (getParent g (Str (node_id n))) \<mapsto>
                          parent\<lparr>elk_children := elk_children parent @ [node_id n]\<rparr>))))
      else Some (Inr m))"

definition assignEdges ::
  "sliceTables \<Rightarrow> (string \<rightharpoonup> ElkNodeObj) \<Rightarrow> DagNodeLayoutSpec \<Rightarrow>
   (error + (string \<rightharpoonup> ElkNodeObj)) option" where
  "assignEdges tables m n =
     (case m (node_id n) of
        None \<Rightarrow> Some (Inl TypeError)
      | Some obj \<Rightarrow> Some (Inr (m(node_id n \<mapsto> obj\<lparr>elk_edges := fst tables (node_id n)\<rparr>))))"

text \<open>
  \<open>getElkGraph(nodes, edges)\<close>; \<open>kRootNode\<close>, \<open>kRootOrientation\<close> and \<open>kNodeMargin\<close> are the
  constants of the module, which the file does not define, and \<open>depth\<close> is the depth of
  the call stack that the height computation finds.  \<open>kRootNode\<close> is taken not to be an
  inherited name where \<open>edgeSegments[kRootNode]\<close> is read for the edges of the root.
\<close>

definition getElkGraph ::
  "string \<Rightarrow> string \<Rightarrow> jsnum \<Rightarrow> nat \<Rightarrow> DagNodeLayoutSpec list \<Rightarrow> 'p DagEdgeLayoutSpec list \<Rightarrow>
   (error + ElkGraph) option" where
  "getElkGraph kRootNode kRootOrientation kNodeMargin depth ns es =
     (case newGraphProperties depth ns es of
        None \<Rightarrow> None
      | Some (Inl e) \<Rightarrow> Some (Inl e)
      | Some (Inr g) \<Rightarrow>
          (case getEdgeSegments kRootNode g of
             None \<Rightarrow> None
           | Some (Inl e) \<Rightarrow> Some (Inl e)
           | Some (Inr tables) \<Rightarrow>
               (case createElkNodes kNodeMargin g tables ns of
                  None \<Rightarrow> None
                | Some (Inl e) \<Rightarrow> Some (Inl e)
                | Some (Inr m0) \<Rightarrow>
                    (case forEach (assignToParent g) m0 ns of
                       None \<Rightarrow> None
                     | Some (Inl e) \<Rightarrow> Some (Inl e)
                     | Some (Inr m) \<Rightarrow>
                         (case forEach (assignEdges tables) m ns of
                            None \<Rightarrow> None
                          | Some (Inl e) \<Rightarrow> Some (Inl e)
                          | Some (Inr m') \<Rightarrow>
                              Some (Inr \<lparr>root_id = kRootNode,
                                         root_direction = kRootOrientation,
                                         root_nodeMargin = kNodeMargin,
                                         root_children =
                                           map node_id
                                             (filter (\<lambda>n. getParent g (Str (node_id n)) = Null)
                                                ns),
                                         root_edges = fst tables kRootNode,
                                         elkNodes = m'\<rparr>))))))"

section \<open>The graph after layout and the coordinate reducer\<close>

text \<open>
  The layout engine is not part of the repository.  What the reducer reads of the graph
  that the engine has laid out is a tree: of a node its id, position, size, the \<open>z\<close> of
  its \<open>notElk\<close> field, its edges and its children; of an edge the \<open>edgeId\<close>, \<open>index\<close> and
  \<open>z\<close> of its \<open>notElk\<close> field and its sections.  The index is the number that \<open>setIndex\<close>
  has set.
\<close>

type_synonym point = "jsnum \<times> jsnum"

record elkSection =
  startPoint :: point
  endPoint :: point
  bendPoints :: "point list option"

record laidEdge =
  le_edgeId :: string
  le_index :: nat
  le_z :: "jsnum option"
  le_sections :: "elkSection list"

datatype laidNode =
  LaidNode (ln_id: string) (ln_x: "jsnum option") (ln_y: "jsnum option")
    (ln_width: "jsnum option") (ln_height: "jsnum option") (ln_z: "jsnum option")
    (ln_edges: "laidEdge list") (ln_children: "laidNode list")

text \<open>\<open>elkEdgeToPointArray(edge, offset)\<close>; \<open>edge.sections[0]\<close> of no section throws.\<close>

definition translate :: "point \<Rightarrow> point \<Rightarrow> point" where
  "translate offset p = (js_add (fst p) (fst offset), js_add (snd p) (snd offset))"

definition elkEdgeToPointArray :: "laidEdge \<Rightarrow> point \<Rightarrow> error + point list" where
  "elkEdgeToPointArray edge offset =
     (case le_sections edge of
        [] \<Rightarrow> Inl TypeError
      | sec # _ \<Rightarrow>
          Inr ([translate offset (startPoint sec)] @
               (case bendPoints sec of None \<Rightarrow> [] | Some bs \<Rightarrow> map (translate offset) bs) @
               [translate offset (endPoint sec)]))"

text \<open>
  The edge groups: an object that maps the id of an edge to its \<open>z\<close> and its slices, a
  slice being the points of a segment and its order.  \<open>edgeGroupId in edgeGroups\<close> is
  also true of an inherited name, for which no group is made and
  \<open>edgeGroups[edgeGroupId].edgeSlices.push\<close> throws.
\<close>

type_synonym edgeSlice = "point list \<times> nat"

type_synonym edgeGroups = "(string \<times> (jsnum option \<times> edgeSlice list)) list"

definition addSlice ::
  "edgeGroups \<Rightarrow> string \<Rightarrow> jsnum option \<Rightarrow> edgeSlice \<Rightarrow> error + edgeGroups" where
  "addSlice groups edgeGroupId z slice =
     (case map_of groups edgeGroupId of
        None \<Rightarrow>
          if inherited edgeGroupId then Inl TypeError
          else Inr (AList.update edgeGroupId (z, [slice]) groups)
      | Some (z0, slices) \<Rightarrow> Inr (AList.update edgeGroupId (z0, slices @ [slice]) groups))"

text \<open>The first loop of \<open>elkGraphToEdgeGroupsRecurse\<close>, over the edges of one node.\<close>

fun groupEdges :: "laidEdge list \<Rightarrow> edgeGroups \<Rightarrow> point \<Rightarrow> error + edgeGroups" where
  "groupEdges [] groups offset = Inr groups"
| "groupEdges (edge # rest) groups offset =
     (case elkEdgeToPointArray edge offset of
        Inl e \<Rightarrow> Inl e
      | Inr points \<Rightarrow>
          (case addSlice groups (le_edgeId edge) (le_z edge) (points, le_index edge) of
             Inl e \<Rightarrow> Inl e
           | Inr groups' \<Rightarrow> groupEdges rest groups' offset))"

text \<open>
  \<open>elkGraphToEdgeGroupsRecurse(elkNode, edgeGroups, offset)\<close>, and its second loop, over
  the children.
\<close>

fun elkGraphToEdgeGroupsRecurse :: "laidNode \<Rightarrow> edgeGroups \<Rightarrow> point \<Rightarrow> error + edgeGroups"
  and groupChildren :: "laidNode list \<Rightarrow> edgeGroups \<Rightarrow> point \<Rightarrow> error + edgeGroups" where
  "elkGraphToEdgeGroupsRecurse (LaidNode i x y w h z edges' cs) groups offset =
     (case groupEdges edges' groups offset of
        Inl e \<Rightarrow> Inl e
      | Inr groups' \<Rightarrow> groupChildren cs groups' offset)"
| "groupChildren [] groups offset = Inr groups"
| "groupChildren (c # cs) groups offset =
     (case elkGraphToEdgeGroupsRecurse c groups
             (js_add (fst offset) (toNum (ln_x c)), js_add (snd offset) (toNum (ln_y c))) of
        Inl e \<Rightarrow> Inl e
      | Inr groups' \<Rightarrow> groupChildren cs groups' offset)"

definition elkGraphToEdgeGroups :: "laidNode \<Rightarrow> error + edgeGroups" where
  "elkGraphToEdgeGroups graph = elkGraphToEdgeGroupsRecurse graph [] (Num 0, Num 0)"

text \<open>
  The unified edge of one group: the slices sorted by their order, the first point of
  the first slice, and of every slice the points after its first.  An entry of the new
  array is \<open>undefined\<close> (\<open>None\<close>) when the first slice has no point.
\<close>

definition unifyGroup :: "edgeSlice list \<Rightarrow> error + point option list" where
  "unifyGroup slices =
     (case sort_key snd slices of
        [] \<Rightarrow> Inl TypeError
      | first # rest \<Rightarrow>
          Inr ((case fst first of [] \<Rightarrow> None | p # _ \<Rightarrow> Some p) #
               map Some (concat (map (\<lambda>slice. tl (fst slice)) (first # rest)))))"

type_synonym edgeTransforms = "(string \<times> (point option list \<times> jsnum option)) list"

fun unifyGroups :: "(string \<times> (jsnum option \<times> edgeSlice list)) list \<Rightarrow> edgeTransforms \<Rightarrow>
    error + edgeTransforms" where
  "unifyGroups [] transforms = Inr transforms"
| "unifyGroups ((groupId, (z, slices)) # rest) transforms =
     (case unifyGroup slices of
        Inl e \<Rightarrow> Inl e
      | Inr newEdge \<Rightarrow> unifyGroups rest (AList.update groupId (newEdge, z) transforms))"

definition objectEntries :: "(string \<times> 'v) list \<Rightarrow> (string \<times> 'v) list" where
  "objectEntries al = map (\<lambda>k. (k, the (map_of al k))) (objectKeys al)"

text \<open>
  The last loop of \<open>elkGraphToEdgeTransforms\<close>, which writes the points and the \<open>z\<close> of
  every edge specification.  \<open>edgeTransforms[edgeLayoutSpec.id]\<close> is \<open>undefined\<close> for an id
  with no transform, and reading its \<open>points\<close> throws; for an inherited name it is the
  inherited value, whose \<open>points\<close> and \<open>z\<close> are \<open>undefined\<close>.
\<close>

fun writeEdges :: "edgeTransforms \<Rightarrow> point option DagEdgeLayoutSpec list \<Rightarrow>
    error + point option DagEdgeLayoutSpec list" where
  "writeEdges transforms [] = Inr []"
| "writeEdges transforms (spec # rest) =
     (case map_of transforms (edge_id spec) of
        None \<Rightarrow>
          if inherited (edge_id spec)
          then (case writeEdges transforms rest of
                  Inl e \<Rightarrow> Inl e
                | Inr rest' \<Rightarrow> Inr (spec\<lparr>edge_points := None, edge_z := None\<rparr> # rest'))
          else Inl TypeError
      | Some (points, z) \<Rightarrow>
          (case writeEdges transforms rest of
             Inl e \<Rightarrow> Inl e
           | Inr rest' \<Rightarrow> Inr (spec\<lparr>edge_points := Some points, edge_z := z\<rparr> # rest')))"

definition elkGraphToEdgeTransforms ::
  "laidNode \<Rightarrow> point option DagEdgeLayoutSpec list \<Rightarrow> error + point option DagEdgeLayoutSpec list" where
  "elkGraphToEdgeTransforms graph es =
     (case elkGraphToEdgeGroups graph of
        Inl e \<Rightarrow> Inl e
      | Inr groups \<Rightarrow>
          (case unifyGroups (objectEntries groups) [] of
             Inl e \<Rightarrow> Inl e
           | Inr transforms \<Rightarrow> writeEdges transforms es))"

text \<open>
  \<open>elkGraphToNodeTransformsRecurse(elkNode, nodes, offset)\<close>: the specification found
  first for the id of a child gets the position, the \<open>z\<close> and the size of the child.
\<close>

fun writeNode ::
  "string \<Rightarrow> (DagNodeLayoutSpec \<Rightarrow> DagNodeLayoutSpec) \<Rightarrow> DagNodeLayoutSpec list \<Rightarrow>
   error + DagNodeLayoutSpec list" where
  "writeNode i f [] = Inl TypeError"
| "writeNode i f (n # ns) =
     (if node_id n = i then Inr (f n # ns)
      else (case writeNode i f ns of Inl e \<Rightarrow> Inl e | Inr ns' \<Rightarrow> Inr (n # ns')))"

fun elkGraphToNodeTransformsRecurse ::
    "laidNode \<Rightarrow> DagNodeLayoutSpec list \<Rightarrow> point \<Rightarrow> error + DagNodeLayoutSpec list"
  and placeChildren ::
    "laidNode list \<Rightarrow> DagNodeLayoutSpec list \<Rightarrow> point \<Rightarrow> error + DagNodeLayoutSpec list" where
  "elkGraphToNodeTransformsRecurse (LaidNode i x y w h z edges' cs) ns offset =
     placeChildren cs ns offset"
| "placeChildren [] ns offset = Inr ns"
| "placeChildren (c # cs) ns offset =
     (case writeNode (ln_id c)
             (\<lambda>n. n\<lparr>node_x := Some (js_add (toNum (ln_x c)) (fst offset)),
                     node_y := Some (js_add (toNum (ln_y c)) (snd offset)),
                     node_z := ln_z c,
                     width := ln_width c,
                     height := ln_height c\<rparr>) ns of
        Inl e \<Rightarrow> Inl e
      | Inr ns' \<Rightarrow>
          (case elkGraphToNodeTransformsRecurse c ns'
                  (js_add (toNum (ln_x c)) (fst offset), js_add (toNum (ln_y c)) (snd offset)) of
             Inl e \<Rightarrow> Inl e
           | Inr ns'' \<Rightarrow> placeChildren cs ns'' offset))"

definition elkGraphToNodeTransforms ::
  "laidNode \<Rightarrow> DagNodeLayoutSpec list \<Rightarrow> error + DagNodeLayoutSpec list" where
  "elkGraphToNodeTransforms graph ns = elkGraphToNodeTransformsRecurse graph ns (Num 0, Num 0)"


section \<open>The pipeline: \<open>layoutElkGraph\<close> and \<open>layout\<close>\<close>

text \<open>
  \<open>layoutElkGraph(nodes, edges, graph, onComplete)\<close>.  The layout engine is a parameter:
  a function that gives for a graph the graph laid out, or the reason of a promise that
  is rejected.  The value is the four arguments that \<open>onComplete\<close> is called with
  (\<open>graph.width\<close>, \<open>graph.height\<close>, the nodes and the edges written back); an error is
  what \<open>console.error\<close> receives, and \<open>onComplete\<close> is not called then.
\<close>

type_synonym layoutResult =
  "jsnum option \<times> jsnum option \<times> DagNodeLayoutSpec list \<times> point option DagEdgeLayoutSpec list"

definition layoutElkGraph ::
  "(ElkGraph \<Rightarrow> error + laidNode) \<Rightarrow> DagNodeLayoutSpec list \<Rightarrow>
   point option DagEdgeLayoutSpec list \<Rightarrow> ElkGraph \<Rightarrow> error + layoutResult" where
  "layoutElkGraph elk ns es graph =
     (case elk graph of
        Inl e \<Rightarrow> Inl e
      | Inr laid \<Rightarrow>
          (case elkGraphToNodeTransforms laid ns of
             Inl e \<Rightarrow> Inl e
           | Inr ns' \<Rightarrow>
               (case elkGraphToEdgeTransforms laid es of
                  Inl e \<Rightarrow> Inl e
                | Inr es' \<Rightarrow> Inr (ln_width laid, ln_height laid, ns', es'))))"

text \<open>\<open>layout(nodes, edges, callback)\<close>: \<open>layoutElkGraph(nodes, edges, getElkGraph(nodes, edges), callback)\<close>.\<close>

definition layout ::
  "string \<Rightarrow> string \<Rightarrow> jsnum \<Rightarrow> nat \<Rightarrow> (ElkGraph \<Rightarrow> error + laidNode) \<Rightarrow>
   DagNodeLayoutSpec list \<Rightarrow> point option DagEdgeLayoutSpec list \<Rightarrow> (error + layoutResult) option" where
  "layout kRootNode kRootOrientation kNodeMargin depth elk ns es =
     (case getElkGraph kRootNode kRootOrientation kNodeMargin depth ns es of
        None \<Rightarrow> None
      | Some (Inl e) \<Rightarrow> Some (Inl e)
      | Some (Inr graph) \<Rightarrow> Some (layoutElkGraph elk ns es graph))"
section \<open>Properties of the hierarchy index\<close>

text \<open>
  The table is consistent when every entry belongs to a node, is 0 for a node with no
  children, and for any other node is one more than the greatest entry of its children,
  which all have a numeric entry.
\<close>

definition heightsConsistent :: "(string \<rightharpoonup> DagNodeLayoutSpec) \<Rightarrow> heights \<Rightarrow> bool" where
  "heightsConsistent m h =
     (\<forall>v k. h v = Some k \<longrightarrow>
        (\<exists>n. m v = Some n \<and>
          (if children n = [] then k = Some 0
           else (\<forall>c \<in> set (children n). \<exists>j. h c = Some (Some j)) \<and>
                k = maxPlus1 (map (storedHeight h) (children n)))))"

text \<open>
  The ids of a list of nodes are plain when no node id and no id listed as a child is a
  name that objects inherit.
\<close>

definition plainIds :: "DagNodeLayoutSpec list \<Rightarrow> bool" where
  "plainIds ns =
     (\<forall>n \<in> set ns. \<not> inherited (node_id n) \<and> (\<forall>c \<in> set (children n). \<not> inherited c))"

definition plainChildren :: "(string \<rightharpoonup> DagNodeLayoutSpec) \<Rightarrow> bool" where
  "plainChildren m = (\<forall>v n c. m v = Some n \<longrightarrow> c \<in> set (children n) \<longrightarrow> \<not> inherited c)"

text \<open>
  A hierarchy index built from a list of nodes with distinct ids: the constructor
  returned it, for some depth of the call stack.
\<close>

definition builtFrom ::
  "'p GraphProperties \<Rightarrow> DagNodeLayoutSpec list \<Rightarrow> 'p DagEdgeLayoutSpec list \<Rightarrow> bool" where
  "builtFrom g ns es =
     (distinct (map node_id ns) \<and> (\<exists>depth. newGraphProperties depth ns es = Some (Inr g)))"

text \<open>
  What the slicer relies on, for a set \<open>V\<close> of node ids: a node of \<open>V\<close> has an id that is
  not inherited, has a height and is stored in the index, and its parent is the root
  context or a node of \<open>V\<close> of greater height.
\<close>

definition hierarchyOk :: "'p GraphProperties \<Rightarrow> string set \<Rightarrow> bool" where
  "hierarchyOk g V =
     (\<forall>v \<in> V.
        \<not> inherited v \<and>
        (\<exists>k. getHierarchyHeight g (Str v) = Some k) \<and>
        (\<exists>n. gNodes g v = Some n) \<and>
        (getParent g (Str v) = Null \<or>
         (\<exists>p \<in> V. getParent g (Str v) = Str p \<and>
            heightLess (getHierarchyHeight g (Str v)) (getHierarchyHeight g (Str p)))))"

text \<open>
  A segment of the edge \<open>e\<close> that can be filed: the name of its owner is not inherited.
\<close>

definition segmentOf :: "string \<Rightarrow> ELKEdgeSegment \<Rightarrow> bool" where
  "segmentOf e x = (seg_edgeId x = e \<and> \<not> inherited (key_of (seg_parentNodeId x)))"

text \<open>
  \<open>hopsUp g x k a\<close>: the node \<open>x\<close> reaches \<open>a\<close> by \<open>k\<close> steps to the parent, each
  taken from a node.
\<close>

fun hopsUp :: "'p GraphProperties \<Rightarrow> jsref \<Rightarrow> nat \<Rightarrow> jsref \<Rightarrow> bool" where
  "hopsUp g x 0 a = (x = a)"
| "hopsUp g x (Suc k) a = (case x of Str s \<Rightarrow> hopsUp g (getParent g x) k a | _ \<Rightarrow> False)"

text \<open>
  The ports that a walk up leaves on the ancestors.  An outgoing port on an ancestor
  has the side that \<open>outMap\<close> gives for the orientation of that ancestor; an incoming
  port on an ancestor has the side that \<open>inMap\<close> gives for the orientation of the parent
  of that ancestor.  \<open>passOutPorts g x k\<close> and \<open>passInPorts g x k\<close> push these ports for
  the \<open>k\<close> nearest ancestors of \<open>x\<close>.
\<close>

definition ownOutSide :: "'p GraphProperties \<Rightarrow> jsref \<Rightarrow> portSide option" where
  "ownOutSide g x = (case getOrientation g x of Inr ori \<Rightarrow> Some (outMap ori) | Inl e \<Rightarrow> None)"

definition containerInSide :: "'p GraphProperties \<Rightarrow> jsref \<Rightarrow> portSide option" where
  "containerInSide g x =
     (case getOrientation g (getParent g x) of Inr ori \<Rightarrow> Some (inMap ori) | Inl e \<Rightarrow> None)"

fun passOutPorts ::
  "'p GraphProperties \<Rightarrow> jsref \<Rightarrow> nat \<Rightarrow> (string \<Rightarrow> portSide option list) \<Rightarrow>
   (string \<Rightarrow> portSide option list)" where
  "passOutPorts g x 0 table = table"
| "passOutPorts g x (Suc k) table =
     passOutPorts g (getParent g x) k
       (push table (key_of (getParent g x)) (ownOutSide g (getParent g x)))"

fun passInPorts ::
  "'p GraphProperties \<Rightarrow> jsref \<Rightarrow> nat \<Rightarrow> (string \<Rightarrow> portSide option list) \<Rightarrow>
   (string \<Rightarrow> portSide option list)" where
  "passInPorts g x 0 table = table"
| "passInPorts g x (Suc k) table =
     passInPorts g (getParent g x) k
       (push table (key_of (getParent g x)) (containerInSide g (getParent g x)))"

text \<open>
  The condition of the second branch of the slicing loop, for the start node \<open>x\<close> and
  the end node \<open>y\<close>: the parent of \<open>x\<close> is the root context, or the parent of \<open>y\<close> is not
  and has a smaller height than the parent of \<open>x\<close>.
\<close>

definition endSideAdvances :: "'p GraphProperties \<Rightarrow> jsref \<Rightarrow> jsref \<Rightarrow> bool" where
  "endSideAdvances g x y =
     (getParent g x = Null \<or>
      (getParent g y \<noteq> Null \<and>
       heightLess (getHierarchyHeight g (getParent g y)) (getHierarchyHeight g (getParent g x))))"

text \<open>
  The chain \<open>fromEdgeSegments.concat(toEdgeSegments.reverse())\<close> that the slicing of one
  edge ends with.
\<close>

definition edgeChain ::
  "string \<Rightarrow> 'p GraphProperties \<Rightarrow> sliceTables \<Rightarrow> string \<Rightarrow> (error + ELKEdgeSegment list) option" where
  "edgeChain kRootNode g tables edgeId =
     (case startWalk g edgeId tables of
        Inl e \<Rightarrow> Some (Inl e)
      | Inr w \<Rightarrow>
          (case sliceLoop kRootNode g edgeId w of
             None \<Rightarrow> None
           | Some (Inl e) \<Rightarrow> Some (Inl e)
           | Some (Inr w') \<Rightarrow> Some (Inr (fromEdgeSegments w' @ toEdgeSegments w'))))"

text \<open>
  The segments of one edge in a laid-out graph, as reassembly has to gather them: the
  points of a segment are the start point, the bend points and the end point of its
  first section; \<open>slicesOf e node offset\<close> lists, for the node at the given offset from the
  root and then for its children, each at the offset of its parent plus its own
  position, the segments of the edge \<open>e\<close> with their points moved by the offset of the
  node that holds them, and their index.
\<close>

definition rawPoints :: "laidEdge \<Rightarrow> point list" where
  "rawPoints edge =
     (case le_sections edge of
        [] \<Rightarrow> []
      | sec # _ \<Rightarrow>
          startPoint sec # (case bendPoints sec of None \<Rightarrow> [] | Some bs \<Rightarrow> bs) @ [endPoint sec])"

definition ownSlices :: "string \<Rightarrow> laidEdge list \<Rightarrow> point \<Rightarrow> edgeSlice list" where
  "ownSlices e es offset =
     map (\<lambda>edge. (map (translate offset) (rawPoints edge), le_index edge))
       (filter (\<lambda>edge. le_edgeId edge = e) es)"

fun slicesOf :: "string \<Rightarrow> laidNode \<Rightarrow> point \<Rightarrow> edgeSlice list"
  and slicesOfChildren :: "string \<Rightarrow> laidNode list \<Rightarrow> point \<Rightarrow> edgeSlice list" where
  "slicesOf e (LaidNode i x y w h z es cs) offset =
     ownSlices e es offset @ slicesOfChildren e cs offset"
| "slicesOfChildren e [] offset = []"
| "slicesOfChildren e (c # cs) offset =
     slicesOf e c (js_add (fst offset) (toNum (ln_x c)), js_add (snd offset) (toNum (ln_y c))) @
     slicesOfChildren e cs offset"

text \<open>The edges of a laid-out graph: those of the node, then those of its children.\<close>

fun laidEdges :: "laidNode \<Rightarrow> laidEdge list"
  and laidEdgesOfChildren :: "laidNode list \<Rightarrow> laidEdge list" where
  "laidEdges (LaidNode i x y w h z es cs) = es @ laidEdgesOfChildren cs"
| "laidEdgesOfChildren [] = []"
| "laidEdgesOfChildren (c # cs) = laidEdges c @ laidEdgesOfChildren cs"

text \<open>The slices that the edge groups hold for an edge.\<close>

definition slicesIn :: "edgeGroups \<Rightarrow> string \<Rightarrow> edgeSlice list" where
  "slicesIn groups e = (case map_of groups e of None \<Rightarrow> [] | Some (z, slices) \<Rightarrow> slices)"


text \<open>
  What the pipeline reads of a node and of an edge: two lists of nodes, or of edges, give
  it the same input when they agree there.
\<close>

definition nodeInput :: "DagNodeLayoutSpec \<Rightarrow> DagNodeLayoutSpec \<Rightarrow> bool" where
  "nodeInput a b =
     (node_id a = node_id b \<and> children a = children b \<and> orientation a = orientation b \<and>
      width a = width b \<and> height a = height b)"

definition edgeInput :: "'p DagEdgeLayoutSpec \<Rightarrow> 'p DagEdgeLayoutSpec \<Rightarrow> bool" where
  "edgeInput a b =
     (edge_id a = edge_id b \<and> edgeStartId a = edgeStartId b \<and> edgeEndId a = edgeEndId b \<and>
      startSide a = startSide b \<and> endSide a = endSide b)"

definition graphInput :: "'p GraphProperties \<Rightarrow> 'p GraphProperties \<Rightarrow> bool" where
  "graphInput g g2 =
     (gNodeParents g = gNodeParents g2 \<and> gNodeHierarchyHeights g = gNodeHierarchyHeights g2 \<and>
      (\<forall>k. rel_option nodeInput (gNodes g k) (gNodes g2 k)) \<and>
      list_all2 (\<lambda>a b. fst a = fst b \<and> edgeInput (snd a) (snd b)) (gEdges g) (gEdges g2))"

text \<open>Two nodes that differ at most in what the reducer writes.\<close>

definition sameButPlace :: "DagNodeLayoutSpec \<Rightarrow> DagNodeLayoutSpec \<Rightarrow> bool" where
  "sameButPlace a b =
     (a\<lparr>node_x := None, node_y := None, node_z := None, width := None, height := None\<rparr> =
      b\<lparr>node_x := None, node_y := None, node_z := None, width := None, height := None\<rparr>)"

text \<open>
  The nodes of a laid-out graph below its root, and what holds of a graph that the
  engine has laid out in place: it holds every node of the graph it was given, each with
  the \<open>z\<close> of its \<open>notElk\<close> field as \<open>createElkNode\<close> has set it.
\<close>

fun laidNodes :: "laidNode \<Rightarrow> laidNode list"
  and laidNodesOfChildren :: "laidNode list \<Rightarrow> laidNode list" where
  "laidNodes (LaidNode i x y w h z es cs) = laidNodesOfChildren cs"
| "laidNodesOfChildren [] = []"
| "laidNodesOfChildren (c # cs) = c # laidNodes c @ laidNodesOfChildren cs"

definition laidInPlace :: "ElkGraph \<Rightarrow> laidNode \<Rightarrow> bool" where
  "laidInPlace graph laid =
     ((\<forall>c \<in> set (laidNodes laid).
         \<exists>obj. elkNodes graph (ln_id c) = Some obj \<and> ln_z c = Some (elk_z obj)) \<and>
      dom (elkNodes graph) \<subseteq> ln_id ` set (laidNodes laid))"
section \<open>Example hierarchies\<close>

text \<open>
  Node specifications as the layout receives them: no position yet.  \<open>cyclicNodes\<close> are
  two nodes that list each other as their child.  \<open>nestedNodes\<close> are the container \<open>c\<close>
  with its child \<open>d\<close>, and the top-level leaf \<open>e\<close>.
\<close>

definition mkNode :: "string \<Rightarrow> string list \<Rightarrow> orientation \<Rightarrow> DagNodeLayoutSpec" where
  "mkNode i cs ori =
     \<lparr>node_id = i, children = cs, width = None, height = None,
      orientation = ori, node_x = None, node_y = None, node_z = None\<rparr>"

definition cyclicNodes :: "DagNodeLayoutSpec list" where
  "cyclicNodes = [mkNode ''a'' [''b''] Vertical, mkNode ''b'' [''a''] Vertical]"

definition nestedNodes :: "DagNodeLayoutSpec list" where
  "nestedNodes = [mkNode ''c'' [''d''] Horizontal, mkNode ''d'' [] Vertical, mkNode ''e'' [] Vertical]"

text \<open>
  \<open>danglingNodes\<close> is one node that lists a child which is no node; \<open>inheritedCycle\<close> is
  one node, of the name \<open>toString\<close>, that lists itself as its child.
\<close>

definition danglingNodes :: "DagNodeLayoutSpec list" where
  "danglingNodes = [mkNode ''a'' [''b''] Vertical]"

definition inheritedCycle :: "DagNodeLayoutSpec list" where
  "inheritedCycle = [mkNode ''toString'' [''toString''] Vertical]"

definition noEdges :: "unit DagEdgeLayoutSpec list" where
  "noEdges = []"

text \<open>
  Edges with no preferred side.  \<open>siblingNodes\<close> are two top-level leaves;
  \<open>cousinNodes\<close> are the containers \<open>p\<close> and \<open>q\<close> with one leaf each.
\<close>

definition mkEdge :: "string \<Rightarrow> string \<Rightarrow> string \<Rightarrow> unit DagEdgeLayoutSpec" where
  "mkEdge i s t =
     \<lparr>edge_id = i, edgeStartId = s, edgeEndId = t, startSide = None, endSide = None,
      edge_points = None, edge_z = None\<rparr>"

definition siblingNodes :: "DagNodeLayoutSpec list" where
  "siblingNodes = [mkNode ''a'' [] Vertical, mkNode ''b'' [] Vertical]"

definition cousinNodes :: "DagNodeLayoutSpec list" where
  "cousinNodes =
     [mkNode ''p'' [''a''] Vertical, mkNode ''q'' [''b''] Vertical,
      mkNode ''a'' [] Vertical, mkNode ''b'' [] Vertical]"

definition emptyTables :: sliceTables where
  "emptyTables = (\<lambda>_. [], \<lambda>_. [], \<lambda>_. [])"

text \<open>The hierarchy indices that the constructor returns for the examples.\<close>

definition exampleGraph ::
  "DagNodeLayoutSpec list \<Rightarrow> 'p DagEdgeLayoutSpec list \<Rightarrow> heights \<Rightarrow> 'p GraphProperties" where
  "exampleGraph ns es h =
     \<lparr>gNodes = nodesMap ns, gNodeParents = parentsMap ns,
      gNodeHierarchyHeights = h, gEdges = edgesObject es\<rparr>"

definition siblingGraph :: "'p DagEdgeLayoutSpec list \<Rightarrow> 'p GraphProperties" where
  "siblingGraph es = exampleGraph siblingNodes es [''a'' \<mapsto> Some 0, ''b'' \<mapsto> Some 0]"

definition nestedGraph :: "'p DagEdgeLayoutSpec list \<Rightarrow> 'p GraphProperties" where
  "nestedGraph es =
     exampleGraph nestedNodes es [''d'' \<mapsto> Some 0, ''c'' \<mapsto> Some 1, ''e'' \<mapsto> Some 0]"

definition cousinGraph :: "'p DagEdgeLayoutSpec list \<Rightarrow> 'p GraphProperties" where
  "cousinGraph es =
     exampleGraph cousinNodes es
       [''a'' \<mapsto> Some 0, ''p'' \<mapsto> Some 1, ''b'' \<mapsto> Some 0, ''q'' \<mapsto> Some 1]"

definition nestedEdgeOut :: "unit DagEdgeLayoutSpec list" where
  "nestedEdgeOut = [mkEdge ''e1'' ''d'' ''e'']"

definition nestedEdgeIn :: "unit DagEdgeLayoutSpec list" where
  "nestedEdgeIn = [mkEdge ''e1'' ''e'' ''d'']"

definition siblingEdge :: "unit DagEdgeLayoutSpec list" where
  "siblingEdge = [mkEdge ''e1'' ''a'' ''b'']"

definition selfLoopEdge :: "unit DagEdgeLayoutSpec list" where
  "selfLoopEdge = [mkEdge ''e1'' ''a'' ''a'']"

definition cousinEdge :: "unit DagEdgeLayoutSpec list" where
  "cousinEdge = [mkEdge ''e1'' ''a'' ''b'']"

text \<open>The edge from \<open>d\<close> to \<open>e\<close> with preferred sides, and the state in which the slicing of
  the edge from \<open>a\<close> to \<open>b\<close> starts.\<close>

definition nestedEdgeSided :: "unit DagEdgeLayoutSpec list" where
  "nestedEdgeSided =
     [\<lparr>edge_id = ''e1'', edgeStartId = ''d'', edgeEndId = ''e'',
       startSide = Some SideRight, endSide = Some SideUp,
       edge_points = None, edge_z = None\<rparr>]"

definition cousinWalk :: EdgeWalk where
  "cousinWalk =
     \<lparr>fromEdgeSegments = [], toEdgeSegments = [], startId = Str ''a'', endId = Str ''b'',
      firstInPortAssigned = False, edgeSegments = \<lambda>_. [],
      outPorts = push (\<lambda>_. []) ''a'' None, inPorts = \<lambda>_. []\<rparr>"

text \<open>
  A laid-out graph: the container \<open>c\<close> at \<open>(10, 20)\<close> holds the first segment of the edge
  \<open>e1\<close>, the root the second, listed first.
\<close>

definition mkLaidEdge :: "string \<Rightarrow> nat \<Rightarrow> point \<Rightarrow> point list \<Rightarrow> point \<Rightarrow> laidEdge" where
  "mkLaidEdge e i p bs q =
     \<lparr>le_edgeId = e, le_index = i, le_z = Some (Num 0),
      le_sections = [\<lparr>startPoint = p, endPoint = q, bendPoints = Some bs\<rparr>]\<rparr>"

definition laidExample :: laidNode where
  "laidExample =
     LaidNode ''root'' None None (Some (Num 100)) (Some (Num 100)) None
       [mkLaidEdge ''e1'' 1 (Num 15, Num 25) [] (Num 30, Num 30)]
       [LaidNode ''c'' (Some (Num 10)) (Some (Num 20)) (Some (Num 20)) (Some (Num 20))
          (Some (Num (- 1)))
          [mkLaidEdge ''e1'' 0 (Num 0, Num 0) [(Num 2, Num 0)] (Num 5, Num 5)] []]"

definition laidExampleEdges :: "point option DagEdgeLayoutSpec list" where
  "laidExampleEdges =
     [\<lparr>edge_id = ''e1'', edgeStartId = ''d'', edgeEndId = ''e'', startSide = None,
       endSide = None, edge_points = None, edge_z = None\<rparr>]"


text \<open>
  A layout engine for \<open>nestedNodes\<close>: whatever graph it is given, it answers with the
  container \<open>c\<close> at the origin, its child \<open>d\<close> inside it, and the leaf \<open>e\<close> below, each
  with the \<open>z\<close> that \<open>createElkNode\<close> gives these nodes.
\<close>

definition laidLeaf :: "string \<Rightarrow> real \<Rightarrow> real \<Rightarrow> laidNode" where
  "laidLeaf i x y =
     LaidNode i (Some (Num x)) (Some (Num y)) (Some (Num 20)) (Some (Num 10)) (Some (Num 0)) [] []"

definition laidNested :: laidNode where
  "laidNested =
     LaidNode ''root'' None None (Some (Num 100)) (Some (Num 100)) None []
       [LaidNode ''c'' (Some (Num 0)) (Some (Num 0)) (Some (Num 40)) (Some (Num 30))
          (Some (Num (- 1))) [] [laidLeaf ''d'' 5 5],
        laidLeaf ''e'' 0 50]"

definition nestedSolver :: "ElkGraph \<Rightarrow> error + laidNode" where
  "nestedSolver graph = Inr laidNested"

definition noLaidEdges :: "point option DagEdgeLayoutSpec list" where
  "noLaidEdges = []"
section \<open>Hierarchy heights\<close>

subsection \<open>What a returned call of \<open>_setHierarchyHeight\<close> leaves in the height table\<close>

lemma those_map_Some:
  assumes "\<forall>x \<in> set xs. \<exists>j. f x = Some j"
  shows "those (map f xs) = Some (map (\<lambda>x. the (f x)) xs)"
  using assms by (induction xs) auto

lemma maxPlus1_numeric:
  assumes "\<forall>c \<in> set cs. \<exists>j. h c = Some (Some j)"
  shows "maxPlus1 (map (storedHeight h) cs) = Some (Max (set (map (\<lambda>c. the (storedHeight h c)) cs)) + 1)"
proof -
  have "\<forall>c \<in> set cs. \<exists>j. storedHeight h c = Some j"
    using assms by (auto simp: storedHeight_def)
  then show ?thesis by (simp add: maxPlus1_def those_map_Some)
qed

lemma heightsConsistent_numeric:
  assumes "heightsConsistent m h" and "h v = Some k"
  shows "\<exists>j. k = Some j"
proof -
  from assms obtain n where n: "m v = Some n"
    and c: "if children n = [] then k = Some 0
            else (\<forall>c \<in> set (children n). \<exists>j. h c = Some (Some j)) \<and>
                 k = maxPlus1 (map (storedHeight h) (children n))"
    unfolding heightsConsistent_def by blast
  show ?thesis
  proof (cases "children n = []")
    case True
    with c show ?thesis by simp
  next
    case False
    with c maxPlus1_numeric [of "children n" h] show ?thesis by simp
  qed
qed

lemma storedHeight_map_cong:
  assumes "\<forall>c \<in> set cs. h' c = h c"
  shows "map (storedHeight h') cs = map (storedHeight h) cs"
  using assms by (simp add: storedHeight_def)

lemma map_le_fresh_upd: "h v = None \<Longrightarrow> h \<subseteq>\<^sub>m h(v \<mapsto> k)"
  by (auto simp: map_le_def)

lemma heightsConsistent_update:
  assumes inv: "heightsConsistent m h"
    and n: "m v = Some n"
    and fresh: "h v = None"
    and k: "if children n = [] then k = Some 0
            else (\<forall>c \<in> set (children n). \<exists>j. h c = Some (Some j)) \<and>
                 k = maxPlus1 (map (storedHeight h) (children n))"
  shows "heightsConsistent m (h(v \<mapsto> k))"
proof -
  define h2 where "h2 = h(v \<mapsto> k)"
  have at_v: "h2 v = Some k" by (simp add: h2_def)
  have other: "h2 c = h c" if "c \<noteq> v" for c using that by (simp add: h2_def)
  have keep: "(\<forall>c \<in> set cs. \<exists>j. h2 c = Some (Some j)) \<and>
              map (storedHeight h2) cs = map (storedHeight h) cs"
    if cs: "\<forall>c \<in> set cs. \<exists>j. h c = Some (Some j)" for cs
  proof -
    from cs fresh have "\<forall>c \<in> set cs. c \<noteq> v" by auto
    then have same: "\<forall>c \<in> set cs. h2 c = h c" using other by blast
    from storedHeight_map_cong [OF same] cs same show ?thesis by metis
  qed
  have "\<exists>n. m u = Some n \<and>
          (if children n = [] then ku = Some 0
           else (\<forall>c \<in> set (children n). \<exists>j. h2 c = Some (Some j)) \<and>
                ku = maxPlus1 (map (storedHeight h2) (children n)))"
    if u: "h2 u = Some ku" for u ku
  proof (cases "u = v")
    case True
    with u at_v have ku: "ku = k" by simp
    show ?thesis
    proof (cases "children n = []")
      case True
      with k ku n \<open>u = v\<close> show ?thesis by simp
    next
      case False
      with k have cs: "\<forall>c \<in> set (children n). \<exists>j. h c = Some (Some j)"
        and kk: "k = maxPlus1 (map (storedHeight h) (children n))" by simp_all
      from keep [OF cs] have a: "\<forall>c \<in> set (children n). \<exists>j. h2 c = Some (Some j)"
        and b: "map (storedHeight h2) (children n) = map (storedHeight h) (children n)"
        by blast+
      from a kk ku n False \<open>u = v\<close> show ?thesis by (simp add: b)
    qed
  next
    case False
    with u other have hu: "h u = Some ku" by simp
    with inv obtain nu where nu: "m u = Some nu"
      and c: "if children nu = [] then ku = Some 0
              else (\<forall>c \<in> set (children nu). \<exists>j. h c = Some (Some j)) \<and>
                   ku = maxPlus1 (map (storedHeight h) (children nu))"
      unfolding heightsConsistent_def by blast
    show ?thesis
    proof (cases "children nu = []")
      case True
      with c nu show ?thesis by simp
    next
      case False
      with c have cs: "\<forall>c \<in> set (children nu). \<exists>j. h c = Some (Some j)"
        and kk: "ku = maxPlus1 (map (storedHeight h) (children nu))" by simp_all
      from keep [OF cs] have a: "\<forall>c \<in> set (children nu). \<exists>j. h2 c = Some (Some j)"
        and b: "map (storedHeight h2) (children nu) = map (storedHeight h) (children nu)"
        by blast+
      from a kk nu False show ?thesis by (simp add: b)
    qed
  qed
  then have "heightsConsistent m h2" unfolding heightsConsistent_def by blast
  then show ?thesis by (simp only: h2_def)
qed

lemma forEach_returned:
  assumes "forEach f s xs = Some (Inr s')"
    and "P s []"
    and "\<And>t x t' done. x \<in> set xs \<Longrightarrow> P t done \<Longrightarrow> f t x = Some (Inr t') \<Longrightarrow> P t' (done @ [x])"
  shows "P s' xs"
proof -
  have "forEach f t ys = Some (Inr s') \<Longrightarrow> P t done \<Longrightarrow> set ys \<subseteq> set xs \<Longrightarrow> P s' (done @ ys)"
    for t ys "done"
  proof (induction ys arbitrary: t "done")
    case Nil
    then show ?case by simp
  next
    case (Cons y ys)
    from Cons.prems(1) obtain t' where t': "f t y = Some (Inr t')"
      and rest: "forEach f t' ys = Some (Inr s')"
      by (auto split: option.splits sum.splits)
    from Cons.prems(3) have "y \<in> set xs" by simp
    from assms(3) [OF this Cons.prems(2) t'] have "P t' (done @ [y])" .
    from Cons.IH [OF rest this] Cons.prems(3) show ?case by simp
  qed
  from this [of s xs "[]"] assms(1,2) show ?thesis by simp
qed

lemma setHierarchyHeight_returned:
  assumes plain: "plainChildren m"
  shows "setHierarchyHeight depth m h v = Some (Inr h') \<Longrightarrow> heightsConsistent m h \<Longrightarrow>
         \<not> inherited v \<Longrightarrow> heightsConsistent m h' \<and> h \<subseteq>\<^sub>m h' \<and> h' v \<noteq> None"
proof (induction depth arbitrary: h v h')
  case 0
  then show ?case by simp
next
  case (Suc depth)
  note own = \<open>\<not> inherited v\<close>
  show ?case
  proof (cases "h v \<noteq> None")
    case True
    with Suc.prems show ?thesis by auto
  next
    case False
    then have fresh: "h v = None" by simp
    with Suc.prems(1) own obtain n where n: "m v = Some n"
      by (auto split: option.splits)
    from plain n have plainc: "\<forall>c \<in> set (children n). \<not> inherited c"
      unfolding plainChildren_def by blast
    show ?thesis
    proof (cases "children n = []")
      case True
      with Suc.prems(1) fresh n own have h': "h' = h(v \<mapsto> Some 0)" by simp
      from heightsConsistent_update [OF Suc.prems(2) n fresh, of "Some 0"] True
      have "heightsConsistent m (h(v \<mapsto> Some 0))" by simp
      moreover have "h \<subseteq>\<^sub>m h(v \<mapsto> Some 0)" using fresh by (rule map_le_fresh_upd)
      moreover have "(h(v \<mapsto> Some 0)) v \<noteq> None" by simp
      ultimately show ?thesis unfolding h' by blast
    next
      case False
      with Suc.prems(1) fresh n own obtain h1
        where each: "forEach (setHierarchyHeight depth m) h (children n) = Some (Inr h1)"
          and h': "h' = h1(v \<mapsto> maxPlus1 (map (storedHeight h1) (children n)))"
        by (auto split: option.splits sum.splits)
      let ?P = "\<lambda>t done. heightsConsistent m t \<and> h \<subseteq>\<^sub>m t \<and> (\<forall>c \<in> set done. t c \<noteq> None)"
      have "?P h1 (children n)"
      proof (rule forEach_returned [OF each, where P = ?P])
        show "?P h []" using Suc.prems(2) by simp
      next
        fix t x t' "done"
        assume x: "x \<in> set (children n)"
          and P: "?P t done" and call: "setHierarchyHeight depth m t x = Some (Inr t')"
        from x plainc have "\<not> inherited x" by blast
        from Suc.IH [OF call _ this] P
        have r: "heightsConsistent m t'" "t \<subseteq>\<^sub>m t'" "t' x \<noteq> None" by simp_all
        from P r(2) have "h \<subseteq>\<^sub>m t'" by (blast intro: map_le_trans)
        moreover have "\<forall>c \<in> set done. t' c \<noteq> None"
          using P r(2) by (metis domIff map_le_def)
        ultimately show "?P t' (done @ [x])" using r by simp
      qed
      then have inv1: "heightsConsistent m h1" and le1: "h \<subseteq>\<^sub>m h1"
        and cs: "\<forall>c \<in> set (children n). h1 c \<noteq> None" by simp_all
      have num: "\<forall>c \<in> set (children n). \<exists>j. h1 c = Some (Some j)"
      proof
        fix c assume "c \<in> set (children n)"
        with cs obtain k where "h1 c = Some k" by auto
        with heightsConsistent_numeric [OF inv1 this] show "\<exists>j. h1 c = Some (Some j)" by auto
      qed
      show ?thesis
      proof (cases "h1 v")
        case None
        from heightsConsistent_update [OF inv1 n None,
            of "maxPlus1 (map (storedHeight h1) (children n))"] False num h'
        have "heightsConsistent m h'" by simp
        moreover have "h1 \<subseteq>\<^sub>m h1(v \<mapsto> maxPlus1 (map (storedHeight h1) (children n)))"
          using None by (rule map_le_fresh_upd)
        with le1 h' have "h \<subseteq>\<^sub>m h'" by (blast intro: map_le_trans)
        moreover have "h' v \<noteq> None" unfolding h' by simp
        ultimately show ?thesis by blast
      next
        case (Some k1)
        with inv1 n False have "k1 = maxPlus1 (map (storedHeight h1) (children n))"
          unfolding heightsConsistent_def by fastforce
        with Some h' have "h' = h1" by (simp add: fun_upd_idem)
        with inv1 le1 Some show ?thesis by simp
      qed
    qed
  qed
qed

lemma dom_nodesMap_fold:
  "dom (fold (\<lambda>n m. m(node_id n \<mapsto> n)) ns m0) = dom m0 \<union> node_id ` set ns"
  by (induction ns arbitrary: m0) auto

lemma dom_nodesMap: "dom (nodesMap ns) = node_id ` set ns"
  by (simp add: nodesMap_def dom_nodesMap_fold)

lemma heights_returned:
  assumes "forEach (setHierarchyHeight depth m) Map.empty ids = Some (Inr h)"
    and plain: "plainChildren m" and ids: "\<forall>v \<in> set ids. \<not> inherited v"
  shows "heightsConsistent m h \<and> (\<forall>v \<in> set ids. h v \<noteq> None)"
proof -
  let ?P = "\<lambda>t done. heightsConsistent m t \<and> (\<forall>c \<in> set done. t c \<noteq> None)"
  have "?P h ids"
  proof (rule forEach_returned [OF assms(1), where P = ?P])
    show "?P Map.empty []" by (simp add: heightsConsistent_def)
  next
    fix t x t' "done"
    assume x: "x \<in> set ids"
      and P: "?P t done" and call: "setHierarchyHeight depth m t x = Some (Inr t')"
    from x ids have "\<not> inherited x" by blast
    from setHierarchyHeight_returned [OF plain call _ this] P
    have r: "heightsConsistent m t'" "t \<subseteq>\<^sub>m t'" "t' x \<noteq> None" by simp_all
    have "\<forall>c \<in> set done. t' c \<noteq> None"
      using P r(2) by (metis domIff map_le_def)
    with r show "?P t' (done @ [x])" by simp
  qed
  then show ?thesis by simp
qed

text \<open>In a consistent table, a child's height is below its parent's.\<close>

lemma heightsConsistent_child_less:
  assumes inv: "heightsConsistent m h"
    and v: "h v = Some kv" and n: "m v = Some n" and c: "c \<in> set (children n)"
  shows "\<exists>i j. h c = Some (Some i) \<and> kv = Some j \<and> i < j"
proof -
  from c have ne: "children n \<noteq> []" by auto
  with inv v n have cs: "\<forall>c \<in> set (children n). \<exists>j. h c = Some (Some j)"
    and kv: "kv = maxPlus1 (map (storedHeight h) (children n))"
    unfolding heightsConsistent_def by fastforce+
  from cs c obtain i where i: "h c = Some (Some i)" by auto
  then have "the (storedHeight h c) = i" by (simp add: storedHeight_def)
  with c have "i \<in> set (map (\<lambda>c. the (storedHeight h c)) (children n))" by force
  then have "i \<le> Max (set (map (\<lambda>c. the (storedHeight h c)) (children n)))" by simp
  with maxPlus1_numeric [OF cs] kv i show ?thesis by simp
qed

subsection \<open>Cycles\<close>

lemma consistent_heights_acyclic:
  assumes inv: "heightsConsistent m h" and all: "dom m \<subseteq> dom h"
  shows "acyclic (childRel m)"
proof -
  have step: "\<exists>i j. h c = Some (Some i) \<and> h v = Some (Some j) \<and> i < j"
    if "(c, v) \<in> childRel m" for c v
  proof -
    from that obtain n where n: "m v = Some n" and c: "c \<in> set (children n)"
      by (auto simp: childRel_def)
    from n all obtain kv where kv: "h v = Some kv" by auto
    from heightsConsistent_child_less [OF inv kv n c] kv show ?thesis by auto
  qed
  have "\<exists>i j. h a = Some (Some i) \<and> h b = Some (Some j) \<and> i < j"
    if "(a, b) \<in> (childRel m)\<^sup>+" for a b
    using that
  proof (induction rule: trancl_induct)
    case (base y)
    then show ?case by (rule step)
  next
    case (step y z)
    from step.IH obtain i j where ij: "h a = Some (Some i)" "h y = Some (Some j)" "i < j" by blast
    from \<open>(y, z) \<in> childRel m\<close> obtain j' k
      where jk: "h y = Some (Some j')" "h z = Some (Some k)" "j' < k"
      using \<open>\<And>c v. (c, v) \<in> childRel m \<Longrightarrow> \<exists>i j. h c = Some (Some i) \<and> h v = Some (Some j) \<and> i < j\<close>
      by blast
    from ij jk show ?case by auto
  qed
  then have "(a, a) \<notin> (childRel m)\<^sup>+" for a by fastforce
  then show ?thesis by (simp add: acyclic_def)
qed

lemma nodesMap_fold_in:
  assumes "fold (\<lambda>n m. m(node_id n \<mapsto> n)) ns m0 v = Some n"
  shows "m0 v = Some n \<or> n \<in> set ns"
  using assms
proof (induction ns arbitrary: m0)
  case Nil
  then show ?case by simp
next
  case (Cons a ns)
  from Cons.prems have "fold (\<lambda>n m. m(node_id n \<mapsto> n)) ns (m0(node_id a \<mapsto> a)) v = Some n"
    by (simp del: fun_upd_apply)
  from Cons.IH [OF this] show ?case by (auto split: if_splits)
qed

lemma nodesMap_in:
  assumes "nodesMap ns v = Some n"
  shows "n \<in> set ns \<and> node_id n = v"
proof -
  from nodesMap_fold_in [OF assms [unfolded nodesMap_def]] have n: "n \<in> set ns" by simp
  have "fold (\<lambda>n m. m(node_id n \<mapsto> n)) xs m0 v = Some n \<Longrightarrow>
        (\<forall>k x. m0 k = Some x \<longrightarrow> node_id x = k) \<Longrightarrow> node_id n = v" for xs m0
  proof (induction xs arbitrary: m0)
    case Nil
    then show ?case by simp
  next
    case (Cons a xs)
    from Cons.prems(1)
    have 1: "fold (\<lambda>n m. m(node_id n \<mapsto> n)) xs (m0(node_id a \<mapsto> a)) v = Some n" 
      by (simp del: fun_upd_apply)
    from Cons.prems(2)
    have 2: "\<forall>k x. (m0(node_id a \<mapsto> a)) k = Some x \<longrightarrow> node_id x = k" by auto
    from Cons.IH [OF 1 2] show ?case .
  qed
  from this [OF assms [unfolded nodesMap_def]] n show ?thesis by simp
qed

lemma plainIds_children:
  assumes "plainIds ns"
  shows "plainChildren (nodesMap ns)"
  unfolding plainChildren_def
proof (intro allI impI)
  fix v n c assume "nodesMap ns v = Some n" and c: "c \<in> set (children n)"
  from nodesMap_in [OF this(1)] have "n \<in> set ns" by simp
  with assms c show "\<not> inherited c" unfolding plainIds_def by blast
qed

lemma newGraphProperties_heights:
  assumes "newGraphProperties depth ns es = Some (Inr g)" and plain: "plainIds ns"
  shows "heightsConsistent (nodesMap ns) (gNodeHierarchyHeights g)"
    and "\<forall>n \<in> set ns. gNodeHierarchyHeights g (node_id n) \<noteq> None"
    and "gNodes g = nodesMap ns" and "gNodeParents g = parentsMap ns"
proof -
  from plain have ids: "\<forall>v \<in> set (map node_id ns). \<not> inherited v"
    unfolding plainIds_def by auto
  from assms(1) obtain h
    where h: "forEach (setHierarchyHeight depth (nodesMap ns)) Map.empty (map node_id ns) = Some (Inr h)"
      and g: "g = \<lparr>gNodes = nodesMap ns, gNodeParents = parentsMap ns,
                   gNodeHierarchyHeights = h, gEdges = edgesObject es\<rparr>"
    by (auto simp: newGraphProperties_def split: option.splits sum.splits)
  from heights_returned [OF h plainIds_children [OF plain] ids] g
  show "heightsConsistent (nodesMap ns) (gNodeHierarchyHeights g)"
    and "\<forall>n \<in> set ns. gNodeHierarchyHeights g (node_id n) \<noteq> None"
    by simp_all
  from g show "gNodes g = nodesMap ns" and "gNodeParents g = parentsMap ns" by simp_all
qed

lemma newGraphProperties_acyclic:
  assumes "newGraphProperties depth ns es = Some (Inr g)" and "plainIds ns"
  shows "acyclic (childRel (nodesMap ns))"
proof -
  from newGraphProperties_heights(1,2) [OF assms]
  have "heightsConsistent (nodesMap ns) (gNodeHierarchyHeights g)"
    and "dom (nodesMap ns) \<subseteq> dom (gNodeHierarchyHeights g)"
    by (auto simp: dom_nodesMap)
  then show ?thesis by (rule consistent_heights_acyclic)
qed

subsection \<open>No error and a result when the children are nodes and there is no cycle\<close>

lemma forEach_no_error:
  assumes "\<forall>x \<in> set xs. \<forall>t. f t x \<noteq> Some (Inl e)"
  shows "forEach f s xs \<noteq> Some (Inl e)"
  using assms by (induction xs arbitrary: s) (auto split: option.splits sum.splits)

lemma forEach_all_return:
  assumes "\<forall>x \<in> set xs. \<forall>t. \<exists>t'. f t x = Some (Inr t')"
  shows "\<exists>s'. forEach f s xs = Some (Inr s')"
  using assms
proof (induction xs arbitrary: s)
  case Nil
  then show ?case by simp
next
  case (Cons x xs)
  then obtain t' where "f s x = Some (Inr t')" by (meson list.set_intros(1))
  with Cons show ?case by simp
qed

lemma forEach_total:
  assumes "\<forall>x \<in> set xs. \<forall>t. f t x \<noteq> None"
  shows "forEach f s xs \<noteq> None"
  using assms by (induction xs arbitrary: s) (auto split: option.splits sum.splits)

text \<open>A call of \<open>_setHierarchyHeight\<close> returns or throws: the depth of the stack bounds it.\<close>

lemma setHierarchyHeight_total: "setHierarchyHeight depth m h v \<noteq> None"
proof (induction depth arbitrary: h v)
  case 0
  show ?case by simp
next
  case (Suc depth)
  show ?case
  proof (cases "h v \<noteq> None \<or> inherited v")
    case True
    then show ?thesis by auto
  next
    case False
    show ?thesis
    proof (cases "m v")
      case None
      with False show ?thesis by simp
    next
      case (Some n)
      have "forEach (setHierarchyHeight depth m) h (children n) \<noteq> None"
        by (rule forEach_total) (simp add: Suc)
      then obtain r where "forEach (setHierarchyHeight depth m) h (children n) = Some r" by auto
      with False Some show ?thesis by (cases r) auto
    qed
  qed
qed

lemma newGraphProperties_total: "newGraphProperties depth ns es \<noteq> None"
proof -
  have "forEach (setHierarchyHeight depth (nodesMap ns)) Map.empty (map node_id ns) \<noteq> None"
    by (rule forEach_total) (simp add: setHierarchyHeight_total)
  then show ?thesis by (auto simp: newGraphProperties_def split: option.splits sum.splits)
qed

lemma setHierarchyHeight_no_error:
  assumes "childrenKnown m" and "m v \<noteq> None"
  shows "setHierarchyHeight depth m h v \<noteq> Some (Inl TypeError)"
  using assms(2)
proof (induction depth arbitrary: h v)
  case 0
  then show ?case by simp
next
  case (Suc depth)
  then obtain n where n: "m v = Some n" by auto
  with assms(1) have "\<forall>c \<in> set (children n). m c \<noteq> None"
    unfolding childrenKnown_def by blast
  with Suc.IH
  have "\<forall>c \<in> set (children n). \<forall>t. setHierarchyHeight depth m t c \<noteq> Some (Inl TypeError)"
    by blast
  from forEach_no_error [OF this]
  have "forEach (setHierarchyHeight depth m) h (children n) \<noteq> Some (Inl TypeError)" .
  with n show ?case by (auto split: option.splits sum.splits)
qed

lemma uniform_depth:
  assumes "\<forall>x \<in> set xs. \<exists>d. \<forall>d' \<ge> d. Q x (d'::nat)"
  shows "\<exists>d. \<forall>d' \<ge> d. \<forall>x \<in> set xs. Q x d'"
  using assms
proof (induction xs)
  case Nil
  then show ?case by simp
next
  case (Cons x xs)
  from Cons.prems obtain d1 where d1: "\<forall>d' \<ge> d1. Q x d'" by auto
  from Cons.prems have "\<forall>y \<in> set xs. \<exists>d. \<forall>d' \<ge> d. Q y d'" by simp
  from Cons.IH [OF this] obtain d2 where d2: "\<forall>d' \<ge> d2. \<forall>y \<in> set xs. Q y d'" by blast
  have "\<forall>y \<in> set (x # xs). Q y d'" if "d' \<ge> max d1 d2" for d'
  proof -
    from that have "d' \<ge> d1" and "d' \<ge> d2" by simp_all
    with d1 d2 show ?thesis by simp
  qed
  then show ?case by blast
qed

lemma setHierarchyHeight_returns:
  assumes wf: "wf (childRel m)" and known: "childrenKnown m" and v: "m v \<noteq> None"
  shows "\<exists>d. \<forall>d' \<ge> d. \<forall>h. \<exists>h'. setHierarchyHeight d' m h v = Some (Inr h')"
  using wf v
proof (induction v rule: wf_induct_rule)
  case (less v)
  then obtain n where n: "m v = Some n" by auto
  have "\<forall>c \<in> set (children n). \<exists>d. \<forall>d' \<ge> d. \<forall>h. \<exists>h'. setHierarchyHeight d' m h c = Some (Inr h')"
  proof
    fix c assume c: "c \<in> set (children n)"
    with n have "(c, v) \<in> childRel m" by (auto simp: childRel_def)
    moreover from known n c have "m c \<noteq> None" unfolding childrenKnown_def by blast
    ultimately show "\<exists>d. \<forall>d' \<ge> d. \<forall>h. \<exists>h'. setHierarchyHeight d' m h c = Some (Inr h')"
      by (rule less.IH)
  qed
  from uniform_depth [OF this] obtain d
    where d: "\<forall>d' \<ge> d. \<forall>c \<in> set (children n). \<forall>h. \<exists>h'. setHierarchyHeight d' m h c = Some (Inr h')"
    by blast
  have "\<exists>h'. setHierarchyHeight d' m h v = Some (Inr h')" if "d' \<ge> Suc d" for d' h
  proof -
    from that obtain d'' where d'': "d' = Suc d''" "d'' \<ge> d" by (cases d') auto
    with d have "\<forall>c \<in> set (children n). \<forall>t. \<exists>t'. setHierarchyHeight d'' m t c = Some (Inr t')"
      by blast
    from forEach_all_return [OF this, of h] obtain h1
      where "forEach (setHierarchyHeight d'' m) h (children n) = Some (Inr h1)" by blast
    with n d''(1) show ?thesis by simp
  qed
  then show ?case by blast
qed

lemma finite_childRel:
  assumes "finite (dom m)"
  shows "finite (childRel m)"
proof -
  have "childRel m \<subseteq> (\<Union>v \<in> dom m. set (children (the (m v)))) \<times> dom m"
    by (auto simp: childRel_def)
  moreover have "finite ((\<Union>v \<in> dom m. set (children (the (m v)))) \<times> dom m)"
    using assms by simp
  ultimately show ?thesis by (rule finite_subset)
qed

lemma heights_computed:
  assumes acyc: "acyclic (childRel (nodesMap ns))" and known: "childrenKnown (nodesMap ns)"
  shows "\<exists>depth. \<forall>d \<ge> depth. \<exists>g. newGraphProperties d ns es = Some (Inr g)"
proof -
  have "finite (dom (nodesMap ns))" by (simp add: dom_nodesMap)
  then have "wf (childRel (nodesMap ns))"
    using acyc by (intro finite_acyclic_wf finite_childRel)
  then have "\<forall>v \<in> set (map node_id ns). \<exists>d. \<forall>d' \<ge> d. \<forall>h. \<exists>h'.
               setHierarchyHeight d' (nodesMap ns) h v = Some (Inr h')"
  proof (intro ballI)
    fix v assume "wf (childRel (nodesMap ns))" and "v \<in> set (map node_id ns)"
    then have "nodesMap ns v \<noteq> None" using dom_nodesMap [of ns] by auto
    with \<open>wf (childRel (nodesMap ns))\<close> known
    show "\<exists>d. \<forall>d' \<ge> d. \<forall>h. \<exists>h'. setHierarchyHeight d' (nodesMap ns) h v = Some (Inr h')"
      by (rule setHierarchyHeight_returns)
  qed
  from uniform_depth [OF this] obtain depth
    where depth: "\<forall>d \<ge> depth. \<forall>v \<in> set (map node_id ns). \<forall>h. \<exists>h'.
                    setHierarchyHeight d (nodesMap ns) h v = Some (Inr h')"
    by blast
  have "\<exists>g. newGraphProperties d ns es = Some (Inr g)" if "d \<ge> depth" for d
  proof -
    from depth that
    have "\<forall>v \<in> set (map node_id ns). \<forall>t. \<exists>t'. setHierarchyHeight d (nodesMap ns) t v = Some (Inr t')"
      by blast
    from forEach_all_return [OF this, of Map.empty] show ?thesis
      by (auto simp: newGraphProperties_def)
  qed
  then show ?thesis by blast
qed

lemma cyclic_never_returns:
  assumes cyc: "\<not> acyclic (childRel (nodesMap ns))" and plain: "plainIds ns"
  shows "newGraphProperties depth ns es \<noteq> Some (Inr g)"
  using newGraphProperties_acyclic [OF _ plain] cyc by blast

lemma known_no_error:
  assumes known: "childrenKnown (nodesMap ns)"
  shows "newGraphProperties depth ns es \<noteq> Some (Inl TypeError)"
proof -
  have "\<forall>v \<in> set (map node_id ns). \<forall>t.
          setHierarchyHeight depth (nodesMap ns) t v \<noteq> Some (Inl TypeError)"
  proof (intro ballI allI)
    fix v t assume "v \<in> set (map node_id ns)"
    then have "nodesMap ns v \<noteq> None" using dom_nodesMap [of ns] by auto
    with known show "setHierarchyHeight depth (nodesMap ns) t v \<noteq> Some (Inl TypeError)"
      by (rule setHierarchyHeight_no_error)
  qed
  from forEach_no_error [OF this, of Map.empty] show ?thesis
    by (auto simp: newGraphProperties_def split: option.splits sum.splits)
qed

subsection \<open>The example hierarchies\<close>

lemma not_inherited_examples [simp]:
  "\<not> inherited ''a''" "\<not> inherited ''b''" "\<not> inherited ''c''" "\<not> inherited ''d''"
  "\<not> inherited ''e''" "\<not> inherited ''p''" "\<not> inherited ''q''" "\<not> inherited ''root''"
  "\<not> inherited ''e1''" "inherited ''toString''"
  by (simp_all add: inherited_def inheritedNames_def)

lemma example_plainIds:
  "plainIds cyclicNodes" "plainIds nestedNodes" "plainIds siblingNodes" "plainIds cousinNodes"
  by (simp_all add: plainIds_def cyclicNodes_def nestedNodes_def siblingNodes_def
      cousinNodes_def mkNode_def)

lemma cyclicNodes_childrenKnown: "childrenKnown (nodesMap cyclicNodes)"
  by (auto simp: childrenKnown_def nodesMap_def cyclicNodes_def mkNode_def split: if_splits)

lemma cyclicNodes_cycle: "\<not> acyclic (childRel (nodesMap cyclicNodes))"
proof -
  have "(''a'', ''b'') \<in> childRel (nodesMap cyclicNodes)"
    and "(''b'', ''a'') \<in> childRel (nodesMap cyclicNodes)"
    by (simp_all add: childRel_def nodesMap_def cyclicNodes_def mkNode_def)
  then have "(''a'', ''a'') \<in> (childRel (nodesMap cyclicNodes))\<^sup>+" by (rule trancl_into_trancl2 [OF _ r_into_trancl])
  then show ?thesis by (auto simp: acyclic_def)
qed

lemma nestedNodes_heights:
  "\<exists>g. newGraphProperties 2 nestedNodes noEdges = Some (Inr g) \<and>
     getHierarchyHeight g (Str ''c'') = Some 1 \<and>
     getHierarchyHeight g (Str ''d'') = Some 0 \<and>
     getHierarchyHeight g (Str ''e'') = Some 0"
  by (simp add: newGraphProperties_def nestedNodes_def mkNode_def nodesMap_def numeral_2_eq_2
      maxPlus1_def storedHeight_def getHierarchyHeight_def)

lemma nestedNodes_childrenKnown: "childrenKnown (nodesMap nestedNodes)"
  by (auto simp: childrenKnown_def nodesMap_def nestedNodes_def mkNode_def split: if_splits)

lemma nestedNodes_acyclic: "acyclic (childRel (nodesMap nestedNodes))"
  using nestedNodes_heights newGraphProperties_acyclic [OF _ example_plainIds(2)] by blast

lemma danglingNodes_acyclic: "acyclic (childRel (nodesMap danglingNodes))"
proof -
  have "childRel (nodesMap danglingNodes) = {(''b'', ''a'')}"
    by (auto simp: childRel_def nodesMap_def danglingNodes_def mkNode_def split: if_splits)
  then show ?thesis by (simp add: acyclic_insert wf_acyclic)
qed

lemma danglingNodes_throws:
  "newGraphProperties depth danglingNodes noEdges =
     Some (Inl (if depth < 2 then RangeError else TypeError))"
proof -
  consider "depth = 0" | "depth = Suc 0" | d where "depth = Suc (Suc d)"
    by (cases depth rule: nat.exhaust [case_names zero suc]; simp) (metis not0_implies_Suc)
  then show ?thesis
    by cases (simp_all add: newGraphProperties_def danglingNodes_def mkNode_def nodesMap_def)
qed

lemma inheritedCycle_cycle: "\<not> acyclic (childRel (nodesMap inheritedCycle))"
proof -
  have "(''toString'', ''toString'') \<in> childRel (nodesMap inheritedCycle)"
    by (simp add: childRel_def nodesMap_def inheritedCycle_def mkNode_def)
  then have "(''toString'', ''toString'') \<in> (childRel (nodesMap inheritedCycle))\<^sup>+" by blast
  then show ?thesis by (auto simp: acyclic_def)
qed

lemma inheritedCycle_returns:
  "\<exists>g. newGraphProperties (Suc depth) inheritedCycle noEdges = Some (Inr g) \<and>
        gNodeHierarchyHeights g = Map.empty"
  by (simp add: newGraphProperties_def inheritedCycle_def mkNode_def)

section \<open>Construction of the hierarchy index\<close>

text \<open>
  C10 as stated fails in both halves.  The node \<open>a\<close> that lists the child \<open>b\<close>, which is
  no node, is a node set without a cycle, and the constructor throws a \<open>TypeError\<close> when
  it reads the children of \<open>b\<close> (a \<open>RangeError\<close> when the stack holds less than two
  calls): the height computation does not end with a height for every node.  The node
  \<open>toString\<close> that lists itself as its child is a cycle, and the constructor returns
  without an error and without a height: \<open>nodeId in this._nodeHierarchyHeights\<close> is
  true of the inherited name, so the first call returns at once.
\<close>

theorem unknown_child_throws_and_inherited_cycle_returns:
  "acyclic (childRel (nodesMap danglingNodes)) \<and>
   (\<forall>depth. newGraphProperties depth danglingNodes noEdges =
      Some (Inl (if depth < 2 then RangeError else TypeError))) \<and>
   \<not> acyclic (childRel (nodesMap inheritedCycle)) \<and>
   (\<forall>depth. \<exists>g. newGraphProperties (Suc depth) inheritedCycle noEdges = Some (Inr g) \<and>
      gNodeHierarchyHeights g = Map.empty)"
  using danglingNodes_acyclic danglingNodes_throws inheritedCycle_cycle inheritedCycle_returns
  by blast

text \<open>
  C10, amended.  Let no node id and no child id be a name that objects inherit.  For a
  node set whose children relation has a cycle, the constructor throws while it computes
  the heights, whatever the depth of the call stack; when every child id names a node
  the error is the \<open>RangeError\<close> of the exhausted stack, since the recursion has no cycle
  check and does not end by itself.  For a node set with no cycle in which every child
  id names a node, the constructor returns, for every sufficient depth of the stack, an
  index that has a height for every node.
\<close>

theorem hierarchy_heights_cycle_or_result:
  assumes "plainIds ns"
  shows "(\<not> acyclic (childRel (nodesMap ns)) \<longrightarrow>
            (\<forall>depth. \<exists>e. newGraphProperties depth ns es = Some (Inl e)) \<and>
            (childrenKnown (nodesMap ns) \<longrightarrow>
               (\<forall>depth. newGraphProperties depth ns es = Some (Inl RangeError)))) \<and>
         (acyclic (childRel (nodesMap ns)) \<and> childrenKnown (nodesMap ns) \<longrightarrow>
            (\<exists>depth. \<forall>d \<ge> depth. \<exists>g. newGraphProperties d ns es = Some (Inr g) \<and>
               (\<forall>n \<in> set ns. \<exists>k. getHierarchyHeight g (Str (node_id n)) = Some k)))"
proof (intro conjI impI allI)
  fix depth
  assume cyc: "\<not> acyclic (childRel (nodesMap ns))"
  obtain r where r: "newGraphProperties depth ns es = Some r"
    using newGraphProperties_total [of depth ns es] by auto
  with cyclic_never_returns [OF cyc assms, of depth es]
  show "\<exists>e. newGraphProperties depth ns es = Some (Inl e)" by (cases r) auto
next
  fix depth
  assume cyc: "\<not> acyclic (childRel (nodesMap ns))" and known: "childrenKnown (nodesMap ns)"
  obtain r where r: "newGraphProperties depth ns es = Some r"
    using newGraphProperties_total [of depth ns es] by auto
  show "newGraphProperties depth ns es = Some (Inl RangeError)"
  proof (cases r)
    case (Inl e)
    with r known_no_error [OF known, of depth es] have "e = RangeError" by (cases e) auto
    with r Inl show ?thesis by simp
  next
    case (Inr g)
    with r cyclic_never_returns [OF cyc assms, of depth es g] show ?thesis by simp
  qed
next
  assume "acyclic (childRel (nodesMap ns)) \<and> childrenKnown (nodesMap ns)"
  then obtain depth where depth: "\<forall>d \<ge> depth. \<exists>g. newGraphProperties d ns es = Some (Inr g)"
    using heights_computed by blast
  have "\<exists>g. newGraphProperties d ns es = Some (Inr g) \<and>
          (\<forall>n \<in> set ns. \<exists>k. getHierarchyHeight g (Str (node_id n)) = Some k)"
    if "d \<ge> depth" for d
  proof -
    from depth that obtain g where g: "newGraphProperties d ns es = Some (Inr g)" by blast
    have "\<exists>k. getHierarchyHeight g (Str (node_id n)) = Some k" if "n \<in> set ns" for n
    proof -
      from newGraphProperties_heights(2) [OF g assms] that
      obtain k where k: "gNodeHierarchyHeights g (node_id n) = Some k" by auto
      from heightsConsistent_numeric [OF newGraphProperties_heights(1) [OF g assms] k] k
      show ?thesis by (auto simp: getHierarchyHeight_def storedHeight_def)
    qed
    with g show ?thesis by blast
  qed
  then show "\<exists>depth. \<forall>d \<ge> depth. \<exists>g. newGraphProperties d ns es = Some (Inr g) \<and>
               (\<forall>n \<in> set ns. \<exists>k. getHierarchyHeight g (Str (node_id n)) = Some k)"
    by blast
qed

theorem hierarchy_heights_cycle_or_result_witness:
  "plainIds cyclicNodes \<and>
   \<not> acyclic (childRel (nodesMap cyclicNodes)) \<and> childrenKnown (nodesMap cyclicNodes) \<and>
   (\<forall>depth. newGraphProperties depth cyclicNodes noEdges = Some (Inl RangeError)) \<and>
   plainIds nestedNodes \<and>
   acyclic (childRel (nodesMap nestedNodes)) \<and> childrenKnown (nodesMap nestedNodes) \<and>
   (\<exists>depth. \<forall>d \<ge> depth. \<exists>g. newGraphProperties d nestedNodes noEdges = Some (Inr g) \<and>
      (\<forall>n \<in> set nestedNodes. \<exists>k. getHierarchyHeight g (Str (node_id n)) = Some k))"
  using hierarchy_heights_cycle_or_result [OF example_plainIds(1), of noEdges]
    hierarchy_heights_cycle_or_result [OF example_plainIds(2), of noEdges]
    cyclicNodes_cycle cyclicNodes_childrenKnown nestedNodes_acyclic nestedNodes_childrenKnown
    example_plainIds(1,2)
  by blast

section \<open>The parent table and the heights of a built index\<close>

lemma fold_children_parent:
  "fold (\<lambda>childId m'. m'(childId \<mapsto> p)) cs m v = (if v \<in> set cs then Some p else m v)"
  by (induction cs arbitrary: m) auto

lemma fold_null_parent:
  "fold (\<lambda>n m. m(node_id n \<mapsto> Null)) ns m0 v = (if v \<in> node_id ` set ns then Some Null else m0 v)"
  by (induction ns arbitrary: m0) auto

lemma fold_parents:
  assumes "fold (\<lambda>n m. fold (\<lambda>childId m'. m'(childId \<mapsto> Str (node_id n))) (children n) m) ns m0 v
             = Some r"
  shows "m0 v = Some r \<or> (\<exists>n \<in> set ns. r = Str (node_id n) \<and> v \<in> set (children n))"
  using assms
proof (induction ns arbitrary: m0)
  case Nil
  then show ?case by simp
next
  case (Cons n ns)
  let ?m1 = "fold (\<lambda>childId m'. m'(childId \<mapsto> Str (node_id n))) (children n) m0"
  from Cons.prems have "fold (\<lambda>n m. fold (\<lambda>childId m'. m'(childId \<mapsto> Str (node_id n))) (children n) m) ns ?m1 v
      = Some r" by (simp del: fun_upd_apply)
  from Cons.IH [OF this]
  have "?m1 v = Some r \<or> (\<exists>n \<in> set ns. r = Str (node_id n) \<and> v \<in> set (children n))" .
  then show ?case
  proof
    assume "?m1 v = Some r"
    then show ?thesis by (auto simp: fold_children_parent split: if_splits)
  next
    assume "\<exists>n \<in> set ns. r = Str (node_id n) \<and> v \<in> set (children n)"
    then show ?thesis by auto
  qed
qed

lemma fold_parents_dom:
  assumes "m0 v \<noteq> None"
  shows "fold (\<lambda>n m. fold (\<lambda>childId m'. m'(childId \<mapsto> Str (node_id n))) (children n) m) ns m0 v
           \<noteq> None"
  using assms by (induction ns arbitrary: m0) (auto simp: fold_children_parent)

lemma parentsMap_node:
  assumes "v \<in> node_id ` set ns"
  shows "parentsMap ns v = Some Null \<or>
         (\<exists>n \<in> set ns. parentsMap ns v = Some (Str (node_id n)) \<and> v \<in> set (children n))"
proof -
  let ?m0 = "fold (\<lambda>n m. m(node_id n \<mapsto> Null)) ns Map.empty"
  from assms have m0: "?m0 v = Some Null" by (simp add: fold_null_parent)
  then have "parentsMap ns v \<noteq> None"
    unfolding parentsMap_def by (intro fold_parents_dom) simp
  then obtain r where r: "parentsMap ns v = Some r" by auto
  from fold_parents [OF r [unfolded parentsMap_def]] m0 r show ?thesis by auto
qed

lemma fold_nodes_other:
  assumes "k \<notin> node_id ` set ns"
  shows "fold (\<lambda>n m. m(node_id n \<mapsto> n)) ns m0 k = m0 k"
  using assms by (induction ns arbitrary: m0) auto

lemma fold_nodes_distinct:
  assumes "distinct (map node_id ns)" and "n \<in> set ns"
  shows "fold (\<lambda>n m. m(node_id n \<mapsto> n)) ns m0 (node_id n) = Some n"
  using assms
proof (induction ns arbitrary: m0)
  case Nil
  then show ?case by simp
next
  case (Cons x xs)
  show ?case
  proof (cases "n \<in> set xs")
    case True
    with Cons show ?thesis by simp
  next
    case False
    with Cons.prems have nx: "n = x" and "node_id x \<notin> node_id ` set xs" by auto
    from fold_nodes_other [OF this(2), of "m0(node_id x \<mapsto> x)"] nx show ?thesis
      by (simp del: fun_upd_apply add: fun_upd_same)
  qed
qed

lemma nodesMap_distinct:
  assumes "distinct (map node_id ns)" and "n \<in> set ns"
  shows "nodesMap ns (node_id n) = Some n"
  using fold_nodes_distinct [OF assms] by (simp add: nodesMap_def)

lemma builtFrom_hierarchyOk:
  assumes "builtFrom g ns es" and plain: "plainIds ns"
  shows "hierarchyOk g (node_id ` set ns)"
  unfolding hierarchyOk_def
proof (intro ballI conjI)
  from assms obtain depth where dist: "distinct (map node_id ns)"
    and g: "newGraphProperties depth ns es = Some (Inr g)"
    unfolding builtFrom_def by blast
  note inv = newGraphProperties_heights(1) [OF g plain]
  note all = newGraphProperties_heights(2) [OF g plain]
  note gn = newGraphProperties_heights(3) [OF g plain]
  note gp = newGraphProperties_heights(4) [OF g plain]
  fix v assume v: "v \<in> node_id ` set ns"
  then obtain nv where nv: "nv \<in> set ns" "node_id nv = v" by auto
  from plain nv show "\<not> inherited v" unfolding plainIds_def by blast
  have num: "\<exists>k. getHierarchyHeight g (Str (node_id n)) = Some k" if "n \<in> set ns" for n
  proof -
    from all that obtain k where k: "gNodeHierarchyHeights g (node_id n) = Some k" by auto
    from heightsConsistent_numeric [OF inv k] k
    show ?thesis by (auto simp: getHierarchyHeight_def storedHeight_def)
  qed
  from num [OF nv(1)] nv(2) show "\<exists>k. getHierarchyHeight g (Str v) = Some k" by simp
  from nodesMap_distinct [OF dist nv(1)] nv(2) gn show "\<exists>n. gNodes g v = Some n" by auto
  from parentsMap_node [OF v]
  show "getParent g (Str v) = Null \<or>
        (\<exists>p \<in> node_id ` set ns. getParent g (Str v) = Str p \<and>
           heightLess (getHierarchyHeight g (Str v)) (getHierarchyHeight g (Str p)))"
  proof
    assume "parentsMap ns v = Some Null"
    then show ?thesis by (simp add: getParent_def gp)
  next
    assume "\<exists>n \<in> set ns. parentsMap ns v = Some (Str (node_id n)) \<and> v \<in> set (children n)"
    then obtain n where n: "n \<in> set ns" "parentsMap ns v = Some (Str (node_id n))"
      "v \<in> set (children n)" by blast
    from all n(1) obtain kn where kn: "gNodeHierarchyHeights g (node_id n) = Some kn" by auto
    from heightsConsistent_child_less [OF inv kn nodesMap_distinct [OF dist n(1)] n(3)]
    obtain i j where "gNodeHierarchyHeights g v = Some (Some i)" "kn = Some j" "i < j" by blast
    with kn have "heightLess (getHierarchyHeight g (Str v)) (getHierarchyHeight g (Str (node_id n)))"
      by (simp add: heightLess_def getHierarchyHeight_def storedHeight_def)
    with n show ?thesis by (auto simp: getParent_def gp)
  qed
qed

section \<open>The edge slicer on a hierarchy\<close>

lemma heightLess_irrefl [simp]: "\<not> heightLess a a"
  by (auto simp: heightLess_def split: option.splits)

lemma heightLess_asym: "heightLess a b \<Longrightarrow> \<not> heightLess b a"
  by (auto simp: heightLess_def split: option.splits)

lemma heightLess_trans: "heightLess a b \<Longrightarrow> heightLess b c \<Longrightarrow> heightLess a c"
  by (auto simp: heightLess_def split: option.splits)

lemma heightLess_total:
  assumes "a = Some i" and "b = Some j"
  shows "heightLess a b \<or> heightLess b a \<or> a = b"
  using assms by (auto simp: heightLess_def)

lemma hierarchyOk_parent:
  assumes "hierarchyOk g V" and "v \<in> V"
  shows "getParent g (Str v) = Null \<or>
         (\<exists>p \<in> V. getParent g (Str v) = Str p \<and>
            heightLess (getHierarchyHeight g (Str v)) (getHierarchyHeight g (Str p)))"
  using assms unfolding hierarchyOk_def by blast

lemma hierarchyOk_height:
  assumes "hierarchyOk g V" and "v \<in> V"
  shows "\<exists>k. getHierarchyHeight g (Str v) = Some k"
  using assms unfolding hierarchyOk_def by blast

lemma hierarchyOk_plain:
  assumes "hierarchyOk g V" and "v \<in> V"
  shows "\<not> inherited v"
  using assms unfolding hierarchyOk_def by blast

lemma hierarchyOk_node:
  assumes "hierarchyOk g V" and "v \<in> V"
  shows "\<exists>n. gNodes g v = Some n"
  using assms unfolding hierarchyOk_def by blast

lemma segmentParentLoop_same [simp]: "segmentParentLoop g x x = Some x"
  by (subst segmentParentLoop.simps) simp

text \<open>A node and its parent, in either order: the loop ends at the parent.\<close>

lemma segmentParentLoop_up:
  assumes ok: "hierarchyOk g V" and v: "v \<in> V"
  shows "segmentParentLoop g (Str v) (getParent g (Str v)) = Some (getParent g (Str v))"
  using hierarchyOk_parent [OF ok v]
proof
  assume p: "getParent g (Str v) = Null"
  show ?thesis by (subst segmentParentLoop.simps) (simp add: p)
next
  assume "\<exists>p \<in> V. getParent g (Str v) = Str p \<and>
            heightLess (getHierarchyHeight g (Str v)) (getHierarchyHeight g (Str p))"
  then obtain p where p: "getParent g (Str v) = Str p"
    and lt: "heightLess (getHierarchyHeight g (Str v)) (getHierarchyHeight g (Str p))" by blast
  from lt have ne: "v \<noteq> p" by auto
  from heightLess_asym [OF lt] lt ne show ?thesis
    by (subst segmentParentLoop.simps) (simp add: p)
qed

lemma segmentParentLoop_down:
  assumes ok: "hierarchyOk g V" and v: "v \<in> V"
  shows "segmentParentLoop g (getParent g (Str v)) (Str v) = Some (getParent g (Str v))"
  using hierarchyOk_parent [OF ok v]
proof
  assume p: "getParent g (Str v) = Null"
  show ?thesis by (subst segmentParentLoop.simps) (simp add: p)
next
  assume "\<exists>p \<in> V. getParent g (Str v) = Str p \<and>
            heightLess (getHierarchyHeight g (Str v)) (getHierarchyHeight g (Str p))"
  then obtain p where p: "getParent g (Str v) = Str p"
    and lt: "heightLess (getHierarchyHeight g (Str v)) (getHierarchyHeight g (Str p))" by blast
  from lt have ne: "v \<noteq> p" by auto
  from heightLess_asym [OF lt] lt ne show ?thesis
    by (subst segmentParentLoop.simps) (simp add: p)
qed

text \<open>Two nodes with the same parent: the loop ends at that parent.\<close>

lemma segmentParentLoop_siblings:
  assumes ok: "hierarchyOk g V" and u: "u \<in> V" and v: "v \<in> V" and ne: "u \<noteq> v"
    and same: "getParent g (Str u) = getParent g (Str v)"
  shows "segmentParentLoop g (Str u) (Str v) = Some (getParent g (Str u))"
proof -
  from hierarchyOk_height [OF ok u] hierarchyOk_height [OF ok v]
  obtain i j where i: "getHierarchyHeight g (Str u) = Some i"
    and j: "getHierarchyHeight g (Str v) = Some j" by blast
  from heightLess_total [OF i j]
  consider (lt) "heightLess (getHierarchyHeight g (Str u)) (getHierarchyHeight g (Str v))"
    | (gt) "heightLess (getHierarchyHeight g (Str v)) (getHierarchyHeight g (Str u))"
    | (eq) "getHierarchyHeight g (Str u) = getHierarchyHeight g (Str v)" by blast
  then show ?thesis
  proof cases
    case lt
    from heightLess_asym [OF lt] lt ne segmentParentLoop_down [OF ok v] same show ?thesis
      by (subst segmentParentLoop.simps) simp
  next
    case gt
    from gt ne segmentParentLoop_up [OF ok u] same show ?thesis
      by (subst segmentParentLoop.simps) simp
  next
    case eq
    with ne show ?thesis
      by (subst segmentParentLoop.simps) (simp add: same)
  qed
qed

lemma getOrientation_ok:
  assumes ok: "hierarchyOk g V" and x: "x = Null \<or> (\<exists>p \<in> V. x = Str p)"
  shows "\<exists>ori. getOrientation g x = Inr ori"
  using x
proof
  assume "x = Null"
  then show ?thesis by (simp add: getOrientation_def)
next
  assume "\<exists>p \<in> V. x = Str p"
  then obtain p where p: "p \<in> V" "x = Str p" by blast
  from hierarchyOk_node [OF ok p(1)] p(2) show ?thesis by (auto simp: getOrientation_def)
qed

lemma parent_ref:
  assumes ok: "hierarchyOk g V" and v: "v \<in> V"
  shows "getParent g (Str v) = Null \<or> (\<exists>p \<in> V. getParent g (Str v) = Str p)"
  using hierarchyOk_parent [OF ok v] by blast

lemma inPortSide_ok:
  assumes ok: "hierarchyOk g V" and t: "endId w = Str t" "t \<in> V"
    and edge: "map_of (gEdges g) e = Some edge"
  shows "inPortSide g e w =
           Inr (if firstInPortAssigned w then containerInSide g (Str t)
                else map_option sideMap (endSide edge))"
proof -
  from getOrientation_ok [OF ok parent_ref [OF ok t(2)]]
  obtain ori where "getOrientation g (getParent g (Str t)) = Inr ori" by blast
  with t edge show ?thesis
    by (simp add: inPortSide_def containerInSide_def getEndSide_def)
qed

lemma ownOutSide_ok:
  assumes ok: "hierarchyOk g V" and p: "p \<in> V"
  shows "\<exists>ori. getOrientation g (Str p) = Inr ori \<and> ownOutSide g (Str p) = Some (outMap ori)"
proof -
  from getOrientation_ok [OF ok, of "Str p"] p
  obtain ori where "getOrientation g (Str p) = Inr ori" by blast
  then show ?thesis by (simp add: ownOutSide_def)
qed

lemma length_setIndices [simp]: "length (setIndices chain) = length chain"
  by (simp add: setIndices_def)

lemma setIndices_segmentOf:
  assumes "\<forall>x \<in> set chain. segmentOf e x"
  shows "\<forall>x \<in> set (setIndices chain). segmentOf e x"
  using assms by (auto simp: setIndices_def segmentOf_def in_set_enumerate_eq)

lemma pushSegments_plain:
  assumes "\<forall>x \<in> set chain. segmentOf e x"
  shows "\<exists>table'. pushSegments table chain = Inr table'"
  using assms by (induction chain arbitrary: table) (simp_all add: segmentOf_def tablePush_def)

lemma tablePush_plain [simp]: "\<not> inherited k \<Longrightarrow> tablePush table k a = Inr (push table k a)"
  by (simp add: tablePush_def)

text \<open>The owner of a segment between a node and its parent, or two nodes of one parent.\<close>

lemma owner_plain:
  assumes ok: "hierarchyOk g V" and v: "v \<in> V" and root: "\<not> inherited kRootNode"
  shows "\<not> inherited (key_of (if getParent g (Str v) = Null then Str kRootNode
                                 else getParent g (Str v)))"
  using hierarchyOk_parent [OF ok v] hierarchyOk_plain [OF ok] root by auto

text \<open>The closing iteration.\<close>

lemma sliceStep_closing:
  assumes ok: "hierarchyOk g V"
    and w: "startId w = Str s" "endId w = Str t" and V: "s \<in> V" "t \<in> V" and ne: "s \<noteq> t"
    and same: "getParent g (Str s) = getParent g (Str t)"
    and edge: "map_of (gEdges g) e = Some edge"
    and own: "\<forall>x \<in> set (fromEdgeSegments w @ toEdgeSegments w). segmentOf e x"
    and root: "\<not> inherited kRootNode"
  shows "\<exists>seg chain segs'.
           seg = \<lparr>seg_index = None, seg_edgeId = e,
                  seg_startPortId = getPortId (Str s) (int (length (outPorts w s)) - 1) False,
                  seg_endPortId = getPortId (Str t) (int (length (inPorts w t))) True,
                  seg_parentNodeId =
                    (if getParent g (Str s) = Null then Str kRootNode else getParent g (Str s))\<rparr> \<and>
           chain = setIndices ((fromEdgeSegments w @ [seg]) @ rev (toEdgeSegments w)) \<and>
           (\<forall>x \<in> set chain. segmentOf e x) \<and>
           pushSegments (edgeSegments w) chain = Inr segs' \<and>
           sliceStep kRootNode g e w =
             Some (Inr (Break (w\<lparr>
               fromEdgeSegments := take (Suc (length (fromEdgeSegments w))) chain,
               toEdgeSegments := drop (Suc (length (fromEdgeSegments w))) chain,
               inPorts := push (inPorts w) t
                 (if firstInPortAssigned w then containerInSide g (Str t)
                  else map_option sideMap (endSide edge)),
               edgeSegments := segs'\<rparr>)))"
proof -
  define seg where "seg = \<lparr>seg_index = None, seg_edgeId = e,
                  seg_startPortId = getPortId (Str s) (int (length (outPorts w s)) - 1) False,
                  seg_endPortId = getPortId (Str t) (int (length (inPorts w t))) True,
                  seg_parentNodeId =
                    (if getParent g (Str s) = Null then Str kRootNode else getParent g (Str s))\<rparr>"
  define chain where "chain = setIndices ((fromEdgeSegments w @ [seg]) @ rev (toEdgeSegments w))"
  from owner_plain [OF ok V(1) root] have "segmentOf e seg" by (simp add: seg_def segmentOf_def)
  with own have "\<forall>x \<in> set ((fromEdgeSegments w @ [seg]) @ rev (toEdgeSegments w)). segmentOf e x"
    by auto
  from setIndices_segmentOf [OF this] have all: "\<forall>x \<in> set chain. segmentOf e x"
    by (simp only: chain_def)
  from pushSegments_plain [OF all] obtain segs'
    where segs': "pushSegments (edgeSegments w) chain = Inr segs'" by blast
  note plain = hierarchyOk_plain [OF ok V(2)]
  have new: "newELKEdgeSegment kRootNode g e (Str s)
               (getPortId (Str s) (int (length (outPorts w s)) - 1) False) (Str t)
               (getPortId (Str t) (int (length (inPorts w t))) True) = Some seg"
    using segmentParentLoop_siblings [OF ok V ne same]
    by (simp add: newELKEdgeSegment_def seg_def)
  have chain2: "setIndices (fromEdgeSegments w @ seg # rev (toEdgeSegments w)) = chain"
    by (simp add: chain_def)
  from inPortSide_ok [OF ok w(2) V(2) edge] w same plain segs' new chain2
  have "sliceStep kRootNode g e w =
             Some (Inr (Break (w\<lparr>
               fromEdgeSegments := take (Suc (length (fromEdgeSegments w))) chain,
               toEdgeSegments := drop (Suc (length (fromEdgeSegments w))) chain,
               inPorts := push (inPorts w) t
                 (if firstInPortAssigned w then containerInSide g (Str t)
                  else map_option sideMap (endSide edge)),
               edgeSegments := segs'\<rparr>)))"
    by (simp add: sliceStep_def Let_def)
  with all segs' show ?thesis unfolding seg_def chain_def by blast
qed

text \<open>An iteration that moves the end node to its parent.\<close>

lemma sliceStep_end:
  assumes ok: "hierarchyOk g V"
    and w: "startId w = Str s" "endId w = Str t" and V: "s \<in> V" "t \<in> V"
    and differ: "getParent g (Str s) \<noteq> getParent g (Str t)"
    and adv: "endSideAdvances g (Str s) (Str t)"
    and edge: "map_of (gEdges g) e = Some edge"
  shows "\<exists>seg.
           seg = \<lparr>seg_index = None, seg_edgeId = e,
                  seg_startPortId = getPortId (getParent g (Str t))
                    (int (length (inPorts w (key_of (getParent g (Str t)))))) True,
                  seg_endPortId = getPortId (Str t) (int (length (inPorts w t))) True,
                  seg_parentNodeId =
                    (if getParent g (Str t) = Null then Str kRootNode else getParent g (Str t))\<rparr> \<and>
           sliceStep kRootNode g e w =
           Some (Inr (Continue (w\<lparr>
             toEdgeSegments := toEdgeSegments w @ [seg],
             inPorts := push (inPorts w) t
               (if firstInPortAssigned w then containerInSide g (Str t)
                else map_option sideMap (endSide edge)),
             firstInPortAssigned := True,
             endId := getParent g (Str t)\<rparr>)))"
  using segmentParentLoop_down [OF ok V(2)] inPortSide_ok [OF ok w(2) V(2) edge] w differ adv
    hierarchyOk_plain [OF ok V(2)]
  by (simp add: sliceStep_def newELKEdgeSegment_def endSideAdvances_def)

text \<open>An iteration that moves the start node to its parent.\<close>

lemma sliceStep_start:
  assumes ok: "hierarchyOk g V"
    and w: "startId w = Str s" "endId w = Str t" and V: "s \<in> V" "t \<in> V"
    and differ: "getParent g (Str s) \<noteq> getParent g (Str t)"
    and adv: "\<not> endSideAdvances g (Str s) (Str t)"
  shows "\<exists>seg p. p \<in> V \<and> getParent g (Str s) = Str p \<and>
           seg = \<lparr>seg_index = None, seg_edgeId = e,
                  seg_startPortId = getPortId (Str s) (int (length (outPorts w s)) - 1) False,
                  seg_endPortId = getPortId (Str p) (int (length (outPorts w p))) False,
                  seg_parentNodeId = Str p\<rparr> \<and>
           segmentOf e seg \<and>
           sliceStep kRootNode g e w =
           Some (Inr (Continue (w\<lparr>
             fromEdgeSegments := fromEdgeSegments w @ [seg],
             startId := Str p,
             outPorts := push (outPorts w) p (ownOutSide g (Str p))\<rparr>)))"
proof -
  from adv have "getParent g (Str s) \<noteq> Null" by (simp add: endSideAdvances_def)
  with parent_ref [OF ok V(1)] obtain p where p: "p \<in> V" "getParent g (Str s) = Str p" by auto
  from ownOutSide_ok [OF ok p(1)] obtain ori
    where ori: "getOrientation g (Str p) = Inr ori" "ownOutSide g (Str p) = Some (outMap ori)"
    by blast
  from adv p have no: "\<not> (getParent g (Str t) \<noteq> Null \<and>
      heightLess (getHierarchyHeight g (getParent g (Str t))) (getHierarchyHeight g (Str p)))"
    by (simp add: endSideAdvances_def)
  from segmentParentLoop_up [OF ok V(1)] p ori w differ hierarchyOk_plain [OF ok p(1)]
  show ?thesis
    by (simp add: sliceStep_def newELKEdgeSegment_def no segmentOf_def)
qed

lemma hopsUp_Suc:
  "hopsUp g (Str v) (Suc k) a = hopsUp g (getParent g (Str v)) k a"
  by simp

lemma hopsUp_not_node:
  assumes "hopsUp g x k a" and "\<forall>s. x \<noteq> Str s"
  shows "k = 0 \<and> a = x"
  using assms by (cases k; cases x) auto

lemma hopsUp_higher:
  assumes ok: "hierarchyOk g V"
  shows "v \<in> V \<Longrightarrow> hopsUp g (Str v) (Suc m) (Str u) \<Longrightarrow>
         u \<in> V \<and> heightLess (getHierarchyHeight g (Str v)) (getHierarchyHeight g (Str u))"
proof (induction m arbitrary: v)
  case 0
  with hierarchyOk_parent [OF ok 0(1)] show ?case by auto
next
  case (Suc m)
  from Suc.prems(2) have up: "hopsUp g (getParent g (Str v)) (Suc m) (Str u)" by simp
  from hierarchyOk_parent [OF ok Suc.prems(1)] up obtain p where p: "p \<in> V"
    "getParent g (Str v) = Str p"
    "heightLess (getHierarchyHeight g (Str v)) (getHierarchyHeight g (Str p))"
    by auto
  from Suc.IH [OF p(1)] up p(2)
  have "u \<in> V \<and> heightLess (getHierarchyHeight g (Str p)) (getHierarchyHeight g (Str u))" by simp
  with p(3) show ?case by (blast intro: heightLess_trans)
qed

lemma hopsUp_no_return:
  assumes ok: "hierarchyOk g V" and v: "v \<in> V"
  shows "\<not> hopsUp g (Str v) (Suc m) (Str v)"
  using hopsUp_higher [OF ok v, of m v] by auto

lemma hopsUp_same_distance:
  assumes ok: "hierarchyOk g V"
  shows "v \<in> V \<Longrightarrow> hopsUp g (Str v) a L \<Longrightarrow> hopsUp g (Str v) b L \<Longrightarrow> a = b"
proof (induction a arbitrary: v b)
  case 0
  then have L: "L = Str v" by simp
  show ?case
  proof (cases b)
    case 0
    then show ?thesis by simp
  next
    case (Suc b')
    with "0.prems" L hopsUp_no_return [OF ok "0.prems"(1), of b'] show ?thesis by simp
  qed
next
  case (Suc a)
  show ?case
  proof (cases b)
    case 0
    with Suc.prems have "L = Str v" by simp
    with Suc.prems(2) hopsUp_no_return [OF ok Suc.prems(1), of a] show ?thesis by simp
  next
    case (Suc b')
    from Suc.prems(2) have ua: "hopsUp g (getParent g (Str v)) a L" by simp
    from Suc.prems(3) Suc have ub: "hopsUp g (getParent g (Str v)) b' L" by simp
    from parent_ref [OF ok Suc.prems(1)] show ?thesis
    proof
      assume n: "getParent g (Str v) = Null"
      from hopsUp_not_node [OF ua] hopsUp_not_node [OF ub] n Suc show ?thesis by simp
    next
      assume "\<exists>p \<in> V. getParent g (Str v) = Str p"
      then obtain p where p: "p \<in> V" "getParent g (Str v) = Str p" by blast
      from Suc.IH [OF p(1)] ua ub p(2) Suc show ?thesis by simp
    qed
  qed
qed

lemma hopsUp_funpow:
  "hopsUp g x k a \<Longrightarrow> (getParent g ^^ k) x = a"
proof (induction k arbitrary: x)
  case 0
  then show ?case by simp
next
  case (Suc k)
  then have "hopsUp g (getParent g x) k a" by (cases x) auto
  from Suc.IH [OF this] show ?case by (simp add: funpow_swap1)
qed

text \<open>
  When the two paths to \<open>L\<close> are still apart below \<open>L\<close> and one of them has more than
  one step left, the two nodes have different parents.
\<close>

lemma parents_differ:
  assumes ok: "hierarchyOk g V" and V: "s \<in> V" "t \<in> V"
    and hs: "hopsUp g (Str s) (Suc a) L" and ht: "hopsUp g (Str t) (Suc b) L"
    and apart: "(getParent g ^^ a) (Str s) \<noteq> (getParent g ^^ b) (Str t)"
    and more: "0 < a + b"
  shows "getParent g (Str s) \<noteq> getParent g (Str t)"
proof
  assume same: "getParent g (Str s) = getParent g (Str t)"
  from hs have ua: "hopsUp g (getParent g (Str s)) a L" by simp
  from ht same have ub: "hopsUp g (getParent g (Str s)) b L" by simp
  from parent_ref [OF ok V(1)] show False
  proof
    assume "getParent g (Str s) = Null"
    with hopsUp_not_node [OF ua] hopsUp_not_node [OF ub] more show False by simp
  next
    assume "\<exists>p \<in> V. getParent g (Str s) = Str p"
    then obtain p where p: "p \<in> V" "getParent g (Str s) = Str p" by blast
    from hopsUp_same_distance [OF ok p(1)] ua ub p(2) have ab: "a = b" by simp
    with more obtain a' where a': "a = Suc a'" by (cases a) auto
    have "(getParent g ^^ Suc a') (Str s) = (getParent g ^^ Suc a') (Str t)"
      using same by (simp add: funpow_swap1)
    with ab a' apart show False by simp
  qed
qed

lemma hopsUp_parent_node:
  assumes ok: "hierarchyOk g V" and v: "v \<in> V" and h: "hopsUp g (Str v) (Suc (Suc k)) L"
  shows "\<exists>p \<in> V. getParent g (Str v) = Str p \<and> hopsUp g (Str p) (Suc k) L"
proof -
  from h have up: "hopsUp g (getParent g (Str v)) (Suc k) L" by simp
  from parent_ref [OF ok v] show ?thesis
  proof
    assume "getParent g (Str v) = Null"
    with up show ?thesis by simp
  next
    assume "\<exists>p \<in> V. getParent g (Str v) = Str p"
    with up show ?thesis by auto
  qed
qed

lemma sliceLoop_walk:
  assumes ok: "hierarchyOk g V" and edge: "map_of (gEdges g) e = Some edge"
    and root: "\<not> inherited kRootNode"
  shows "startId w = Str s \<Longrightarrow> endId w = Str t \<Longrightarrow> s \<in> V \<Longrightarrow> t \<in> V \<Longrightarrow>
         hopsUp g (Str s) (Suc a) L \<Longrightarrow> hopsUp g (Str t) (Suc b) L \<Longrightarrow>
         (getParent g ^^ a) (Str s) \<noteq> (getParent g ^^ b) (Str t) \<Longrightarrow>
         \<forall>x \<in> set (fromEdgeSegments w @ toEdgeSegments w). segmentOf e x \<Longrightarrow>
         \<exists>w'. sliceLoop kRootNode g e w = Some (Inr w') \<and>
           length (fromEdgeSegments w' @ toEdgeSegments w') =
             length (fromEdgeSegments w) + length (toEdgeSegments w) + a + b + 1 \<and>
           outPorts w' = passOutPorts g (Str s) a (outPorts w) \<and>
           inPorts w' = passInPorts g (Str t) b
             (push (inPorts w) t
                (if firstInPortAssigned w then containerInSide g (Str t)
                 else map_option sideMap (endSide edge))) \<and>
           pushSegments (edgeSegments w) (fromEdgeSegments w' @ toEdgeSegments w') =
             Inr (edgeSegments w') \<and>
           (\<forall>x \<in> set (fromEdgeSegments w' @ toEdgeSegments w'). segmentOf e x)"
proof (induction n \<equiv> "a + b" arbitrary: a b w s t)
  case 0
  then have a: "a = 0" and b: "b = 0" by simp_all
  from "0.prems"(5,6) a b have same: "getParent g (Str s) = getParent g (Str t)" by simp
  from "0.prems"(7) a b have ne: "s \<noteq> t" by simp
  from sliceStep_closing [OF ok "0.prems"(1,2,3,4) ne same edge "0.prems"(8) root]
  obtain seg chain segs'
    where chain: "chain = setIndices ((fromEdgeSegments w @ [seg]) @ rev (toEdgeSegments w))"
      and all: "\<forall>x \<in> set chain. segmentOf e x"
      and segs': "pushSegments (edgeSegments w) chain = Inr segs'"
      and step: "sliceStep kRootNode g e w =
             Some (Inr (Break (w\<lparr>
               fromEdgeSegments := take (Suc (length (fromEdgeSegments w))) chain,
               toEdgeSegments := drop (Suc (length (fromEdgeSegments w))) chain,
               inPorts := push (inPorts w) t
                 (if firstInPortAssigned w then containerInSide g (Str t)
                  else map_option sideMap (endSide edge)),
               edgeSegments := segs'\<rparr>)))"
    by blast
  have len: "length chain = length (fromEdgeSegments w) + length (toEdgeSegments w) + 1"
    by (simp add: chain)
  have td: "set (take k chain) \<union> set (drop k chain) = set chain" for k
    by (simp flip: set_append)
  show ?case
    by (subst sliceLoop.simps) (simp add: step a b len segs' all td)
next
  case (Suc n)
  from Suc.hyps(2) have more: "0 < a + b" by arith
  note differ = parents_differ [OF ok Suc.prems(3,4,5,6,7) more]
  show ?case
  proof (cases "endSideAdvances g (Str s) (Str t)")
    case True
    have "b \<noteq> 0"
    proof
      assume b: "b = 0"
      with more obtain a' where a': "a = Suc a'" by (cases a) auto
      from Suc.prems(6) b have tL: "getParent g (Str t) = L" by simp
      from hopsUp_parent_node [OF ok Suc.prems(3)] Suc.prems(5) a'
      obtain x where x: "x \<in> V" "getParent g (Str s) = Str x" "hopsUp g (Str x) (Suc a') L"
        by blast
      from True x(2) tL have "L \<noteq> Null"
        and lt: "heightLess (getHierarchyHeight g L) (getHierarchyHeight g (Str x))"
        by (simp_all add: endSideAdvances_def)
      with parent_ref [OF ok Suc.prems(4)] tL obtain l where l: "L = Str l" by auto
      from hopsUp_higher [OF ok x(1), of a' l] x(3) l
      have "heightLess (getHierarchyHeight g (Str x)) (getHierarchyHeight g L)" by simp
      from heightLess_asym [OF this] lt show False by simp
    qed
    then obtain b' where b': "b = Suc b'" by (cases b) auto
    from hopsUp_parent_node [OF ok Suc.prems(4)] Suc.prems(6) b'
    obtain y where y: "y \<in> V" "getParent g (Str t) = Str y" "hopsUp g (Str y) (Suc b') L"
      by blast
    define seg1 where "seg1 = \<lparr>seg_index = None, seg_edgeId = e,
                  seg_startPortId = getPortId (getParent g (Str t))
                    (int (length (inPorts w (key_of (getParent g (Str t)))))) True,
                  seg_endPortId = getPortId (Str t) (int (length (inPorts w t))) True,
                  seg_parentNodeId =
                    (if getParent g (Str t) = Null then Str kRootNode else getParent g (Str t))\<rparr>"
    define w1 where "w1 = w\<lparr>
             toEdgeSegments := toEdgeSegments w @ [seg1],
             inPorts := push (inPorts w) t
               (if firstInPortAssigned w then containerInSide g (Str t)
                else map_option sideMap (endSide edge)),
             firstInPortAssigned := True,
             endId := getParent g (Str t)\<rparr>"
    from sliceStep_end [OF ok Suc.prems(1,2,3,4) differ True edge, where kRootNode = kRootNode]
    have step: "sliceStep kRootNode g e w = Some (Inr (Continue w1))"
      unfolding w1_def seg1_def by blast
    from owner_plain [OF ok Suc.prems(4) root] have seg1: "segmentOf e seg1"
      by (simp add: seg1_def segmentOf_def)
    have f: "startId w1 = Str s" "endId w1 = Str y" "firstInPortAssigned w1"
      "fromEdgeSegments w1 = fromEdgeSegments w"
      "length (toEdgeSegments w1) = Suc (length (toEdgeSegments w))"
      "outPorts w1 = outPorts w" "edgeSegments w1 = edgeSegments w"
      "inPorts w1 = push (inPorts w) t
               (if firstInPortAssigned w then containerInSide g (Str t)
                else map_option sideMap (endSide edge))"
      by (simp_all add: w1_def Suc.prems(1) y(2))
    have own1: "\<forall>x \<in> set (fromEdgeSegments w1 @ toEdgeSegments w1). segmentOf e x"
      using Suc.prems(8) seg1 by (auto simp: w1_def)
    have apart: "(getParent g ^^ a) (Str s) \<noteq> (getParent g ^^ b') (Str y)"
      using Suc.prems(7) b' y(2) by (simp add: funpow_swap1)
    have n: "n = a + b'" using Suc.hyps(2) b' by simp
    from Suc.hyps(1) [OF n f(1,2) Suc.prems(3) y(1) Suc.prems(5) y(3) apart own1]
    obtain w' where w': "sliceLoop kRootNode g e w1 = Some (Inr w')"
      "length (fromEdgeSegments w' @ toEdgeSegments w') =
         length (fromEdgeSegments w1) + length (toEdgeSegments w1) + a + b' + 1"
      "outPorts w' = passOutPorts g (Str s) a (outPorts w1)"
      "inPorts w' = passInPorts g (Str y) b'
         (push (inPorts w1) y
            (if firstInPortAssigned w1 then containerInSide g (Str y)
             else map_option sideMap (endSide edge)))"
      "pushSegments (edgeSegments w1) (fromEdgeSegments w' @ toEdgeSegments w') =
         Inr (edgeSegments w')"
      "\<forall>x \<in> set (fromEdgeSegments w' @ toEdgeSegments w'). segmentOf e x"
      by blast
    have loop: "sliceLoop kRootNode g e w = Some (Inr w')"
      by (subst sliceLoop.simps) (simp add: step w'(1))
    from w'(2) f b' have len: "length (fromEdgeSegments w' @ toEdgeSegments w') =
        length (fromEdgeSegments w) + length (toEdgeSegments w) + a + b + 1" by simp
    from w'(4) f b' y(2) have ins: "inPorts w' = passInPorts g (Str t) b
             (push (inPorts w) t
                (if firstInPortAssigned w then containerInSide g (Str t)
                 else map_option sideMap (endSide edge)))" by simp
    from w'(5) f have segs: "pushSegments (edgeSegments w)
        (fromEdgeSegments w' @ toEdgeSegments w') = Inr (edgeSegments w')" by simp
    from loop len w'(3) ins segs w'(6) f show ?thesis by simp
  next
    case False
    have "a \<noteq> 0"
    proof
      assume a: "a = 0"
      with more obtain b' where b': "b = Suc b'" by (cases b) auto
      from Suc.prems(5) a have sL: "getParent g (Str s) = L" by simp
      from hopsUp_parent_node [OF ok Suc.prems(4)] Suc.prems(6) b'
      obtain y where y: "y \<in> V" "getParent g (Str t) = Str y" "hopsUp g (Str y) (Suc b') L"
        by blast
      from False sL y(2) have nn: "L \<noteq> Null"
        and nlt: "\<not> heightLess (getHierarchyHeight g (Str y)) (getHierarchyHeight g L)"
        by (simp_all add: endSideAdvances_def)
      from nn parent_ref [OF ok Suc.prems(3)] sL obtain l where l: "L = Str l" by auto
      from hopsUp_higher [OF ok y(1), of b' l] y(3) l nlt show False by simp
    qed
    then obtain a' where a': "a = Suc a'" by (cases a) auto
    from sliceStep_start [OF ok Suc.prems(1,2,3,4) differ False, where kRootNode = kRootNode and e = e]
    obtain seg p where p: "p \<in> V" "getParent g (Str s) = Str p"
      and seg: "segmentOf e seg"
      and step: "sliceStep kRootNode g e w =
           Some (Inr (Continue (w\<lparr>
             fromEdgeSegments := fromEdgeSegments w @ [seg],
             startId := Str p,
             outPorts := push (outPorts w) p (ownOutSide g (Str p))\<rparr>)))"
      by blast
    define w1 where "w1 = w\<lparr>
             fromEdgeSegments := fromEdgeSegments w @ [seg],
             startId := Str p,
             outPorts := push (outPorts w) p (ownOutSide g (Str p))\<rparr>"
    have f: "startId w1 = Str p" "endId w1 = Str t"
      "firstInPortAssigned w1 = firstInPortAssigned w"
      "length (fromEdgeSegments w1) = Suc (length (fromEdgeSegments w))"
      "toEdgeSegments w1 = toEdgeSegments w"
      "outPorts w1 = push (outPorts w) p (ownOutSide g (Str p))"
      "edgeSegments w1 = edgeSegments w" "inPorts w1 = inPorts w"
      by (simp_all add: w1_def Suc.prems(2))
    have own1: "\<forall>x \<in> set (fromEdgeSegments w1 @ toEdgeSegments w1). segmentOf e x"
      using Suc.prems(8) seg by (auto simp: w1_def)
    from Suc.prems(5) a' p(2) have hp: "hopsUp g (Str p) (Suc a') L" by simp
    have apart: "(getParent g ^^ a') (Str p) \<noteq> (getParent g ^^ b) (Str t)"
      using Suc.prems(7) a' p(2) by (simp add: funpow_swap1)
    have n: "n = a' + b" using Suc.hyps(2) a' by simp
    from Suc.hyps(1) [OF n f(1,2) p(1) Suc.prems(4) hp Suc.prems(6) apart own1]
    obtain w' where w': "sliceLoop kRootNode g e w1 = Some (Inr w')"
      "length (fromEdgeSegments w' @ toEdgeSegments w') =
         length (fromEdgeSegments w1) + length (toEdgeSegments w1) + a' + b + 1"
      "outPorts w' = passOutPorts g (Str p) a' (outPorts w1)"
      "inPorts w' = passInPorts g (Str t) b
         (push (inPorts w1) t
            (if firstInPortAssigned w1 then containerInSide g (Str t)
             else map_option sideMap (endSide edge)))"
      "pushSegments (edgeSegments w1) (fromEdgeSegments w' @ toEdgeSegments w') =
         Inr (edgeSegments w')"
      "\<forall>x \<in> set (fromEdgeSegments w' @ toEdgeSegments w'). segmentOf e x"
      by blast
    from step have step1: "sliceStep kRootNode g e w = Some (Inr (Continue w1))"
      by (simp only: w1_def)
    have loop: "sliceLoop kRootNode g e w = Some (Inr w')"
      by (subst sliceLoop.simps) (simp add: step1 w'(1))
    from w'(2) f a' have len: "length (fromEdgeSegments w' @ toEdgeSegments w') =
        length (fromEdgeSegments w) + length (toEdgeSegments w) + a + b + 1" by simp
    from w'(3) f a' p(2) have outs: "outPorts w' = passOutPorts g (Str s) a (outPorts w)" by simp
    from w'(5) f have segs: "pushSegments (edgeSegments w)
        (fromEdgeSegments w' @ toEdgeSegments w') = Inr (edgeSegments w')" by simp
    from loop len outs w'(4) segs w'(6) f show ?thesis by simp
  qed
qed

lemma startWalk_edge:
  assumes "map_of (gEdges g) e = Some edge" and "\<not> inherited (edgeStartId edge)"
  shows "startWalk g e (segs, outs, ins) =
           Inr \<lparr>fromEdgeSegments = [], toEdgeSegments = [],
                startId = Str (edgeStartId edge), endId = Str (edgeEndId edge),
                firstInPortAssigned = False, edgeSegments = segs,
                outPorts = push outs (edgeStartId edge) (map_option sideMap (startSide edge)),
                inPorts = ins\<rparr>"
  using assms by (simp add: startWalk_def getStartId_def getEndId_def getStartSide_def)

lemma pushSegments_single:
  assumes "\<not> inherited (key_of (seg_parentNodeId s))"
  shows "pushSegments table [s] = Inr (push table (key_of (seg_parentNodeId s)) (toElkEdge s))"
  using assms by simp

text \<open>Filing a chain adds as many entries to the table as the chain has segments.\<close>

lemma push_count_if:
  assumes "distinct ks"
  shows "(\<Sum>x\<leftarrow>ks. length (push table k a x)) =
         (\<Sum>x\<leftarrow>ks. length (table x)) + (if k \<in> set ks then 1 else 0)"
  using assms by (induction ks) (auto simp: push_def)

lemma push_count:
  assumes "distinct ks" and "k \<in> set ks"
  shows "(\<Sum>x\<leftarrow>ks. length (push table k a x)) = (\<Sum>x\<leftarrow>ks. length (table x)) + 1"
  using push_count_if [OF assms(1), of table k a] assms(2) by simp

lemma pushSegments_count:
  assumes "pushSegments table chain = Inr table'" and "distinct ks"
    and "\<forall>s \<in> set chain. key_of (seg_parentNodeId s) \<in> set ks"
  shows "(\<Sum>k\<leftarrow>ks. length (table' k)) = (\<Sum>k\<leftarrow>ks. length (table k)) + length chain"
  using assms(1,3)
proof (induction chain arbitrary: table)
  case Nil
  then show ?case by simp
next
  case (Cons s chain)
  from Cons.prems(1) have plain: "\<not> inherited (key_of (seg_parentNodeId s))"
    and rest: "pushSegments (push table (key_of (seg_parentNodeId s)) (toElkEdge s)) chain =
               Inr table'"
    by (auto simp: tablePush_def split: if_splits)
  from Cons.prems(2) have k: "key_of (seg_parentNodeId s) \<in> set ks"
    and ks: "\<forall>s \<in> set chain. key_of (seg_parentNodeId s) \<in> set ks" by simp_all
  from Cons.IH [OF rest ks] push_count [OF assms(2) k, of table "toElkEdge s"]
  show ?case by simp
qed

text \<open>The whole slicing of an edge whose end nodes are apart below a common ancestor.\<close>

lemma sliceEdge_walk:
  assumes built: "builtFrom g ns es" and plain: "plainIds ns" and root: "\<not> inherited kRootNode"
    and edge: "map_of (gEdges g) e = Some edge"
    and s: "edgeStartId edge \<in> node_id ` set ns" and t: "edgeEndId edge \<in> node_id ` set ns"
    and hs: "hopsUp g (Str (edgeStartId edge)) (Suc i) L"
    and ht: "hopsUp g (Str (edgeEndId edge)) (Suc j) L"
    and apart: "(getParent g ^^ i) (Str (edgeStartId edge)) \<noteq>
                (getParent g ^^ j) (Str (edgeEndId edge))"
  shows "\<exists>chain segs'.
           edgeChain kRootNode g (segs, outs, ins) e = Some (Inr chain) \<and>
           length chain = i + j + 1 \<and>
           (\<forall>x \<in> set chain. segmentOf e x) \<and>
           pushSegments segs chain = Inr segs' \<and>
           sliceEdge kRootNode g (segs, outs, ins) e =
             Some (Inr (segs',
                        passOutPorts g (Str (edgeStartId edge)) i
                          (push outs (edgeStartId edge) (map_option sideMap (startSide edge))),
                        passInPorts g (Str (edgeEndId edge)) j
                          (push ins (edgeEndId edge) (map_option sideMap (endSide edge)))))"
proof -
  note ok = builtFrom_hierarchyOk [OF built plain]
  note start = startWalk_edge [OF edge hierarchyOk_plain [OF ok s]]
  let ?w = "\<lparr>fromEdgeSegments = [], toEdgeSegments = [],
                startId = Str (edgeStartId edge), endId = Str (edgeEndId edge),
                firstInPortAssigned = False, edgeSegments = segs,
                outPorts = push outs (edgeStartId edge) (map_option sideMap (startSide edge)),
                inPorts = ins\<rparr>"
  have w: "startId ?w = Str (edgeStartId edge)" "endId ?w = Str (edgeEndId edge)" by simp_all
  have own: "\<forall>x \<in> set (fromEdgeSegments ?w @ toEdgeSegments ?w). segmentOf e x" by simp
  from sliceLoop_walk [OF ok edge root w s t hs ht apart own]
  obtain w' where w': "sliceLoop kRootNode g e ?w = Some (Inr w')"
    "length (fromEdgeSegments w' @ toEdgeSegments w') =
       length (fromEdgeSegments ?w) + length (toEdgeSegments ?w) + i + j + 1"
    "outPorts w' = passOutPorts g (Str (edgeStartId edge)) i (outPorts ?w)"
    "inPorts w' = passInPorts g (Str (edgeEndId edge)) j
       (push (inPorts ?w) (edgeEndId edge)
          (if firstInPortAssigned ?w then containerInSide g (Str (edgeEndId edge))
           else map_option sideMap (endSide edge)))"
    "pushSegments (edgeSegments ?w) (fromEdgeSegments w' @ toEdgeSegments w') =
       Inr (edgeSegments w')"
    "\<forall>x \<in> set (fromEdgeSegments w' @ toEdgeSegments w'). segmentOf e x"
    by blast
  from w'(2) have len: "length (fromEdgeSegments w' @ toEdgeSegments w') = i + j + 1" by simp
  from w'(3) have outs: "outPorts w' = passOutPorts g (Str (edgeStartId edge)) i
       (push outs (edgeStartId edge) (map_option sideMap (startSide edge)))" by simp
  from w'(4) have ins: "inPorts w' = passInPorts g (Str (edgeEndId edge)) j
       (push ins (edgeEndId edge) (map_option sideMap (endSide edge)))" by simp
  from w'(5) have segs: "pushSegments segs (fromEdgeSegments w' @ toEdgeSegments w') =
       Inr (edgeSegments w')"
    by simp
  have "edgeChain kRootNode g (segs, outs, ins) e =
          Some (Inr (fromEdgeSegments w' @ toEdgeSegments w'))"
    by (simp add: edgeChain_def start w'(1))
  moreover have "sliceEdge kRootNode g (segs, outs, ins) e =
          Some (Inr (edgeSegments w', outPorts w', inPorts w'))"
    by (simp add: sliceEdge_def start w'(1))
  ultimately show ?thesis using len outs ins segs w'(6) by simp
qed

text \<open>The slicing of an edge between two different nodes with the same parent.\<close>

lemma sliceEdge_siblings:
  assumes built: "builtFrom g ns es" and plain: "plainIds ns" and root: "\<not> inherited kRootNode"
    and edge: "map_of (gEdges g) e = Some edge"
    and s: "edgeStartId edge \<in> node_id ` set ns" and t: "edgeEndId edge \<in> node_id ` set ns"
    and ne: "edgeStartId edge \<noteq> edgeEndId edge"
    and same: "getParent g (Str (edgeStartId edge)) = getParent g (Str (edgeEndId edge))"
  shows "\<exists>seg.
           seg = \<lparr>seg_index = Some 0, seg_edgeId = e,
                  seg_startPortId = getPortId (Str (edgeStartId edge))
                    (int (length (outs (edgeStartId edge)))) False,
                  seg_endPortId = getPortId (Str (edgeEndId edge))
                    (int (length (ins (edgeEndId edge)))) True,
                  seg_parentNodeId =
                    (if getParent g (Str (edgeStartId edge)) = Null then Str kRootNode
                     else getParent g (Str (edgeStartId edge)))\<rparr> \<and>
           edgeChain kRootNode g (segs, outs, ins) e = Some (Inr [seg]) \<and>
           sliceEdge kRootNode g (segs, outs, ins) e =
             Some (Inr (push segs (key_of (seg_parentNodeId seg)) (toElkEdge seg),
                        push outs (edgeStartId edge) (map_option sideMap (startSide edge)),
                        push ins (edgeEndId edge) (map_option sideMap (endSide edge))))"
proof -
  note ok = builtFrom_hierarchyOk [OF built plain]
  note start = startWalk_edge [OF edge hierarchyOk_plain [OF ok s]]
  let ?w = "\<lparr>fromEdgeSegments = [], toEdgeSegments = [],
                startId = Str (edgeStartId edge), endId = Str (edgeEndId edge),
                firstInPortAssigned = False, edgeSegments = segs,
                outPorts = push outs (edgeStartId edge) (map_option sideMap (startSide edge)),
                inPorts = ins\<rparr>"
  let ?seg = "\<lparr>seg_index = Some 0, seg_edgeId = e,
                  seg_startPortId = getPortId (Str (edgeStartId edge))
                    (int (length (outs (edgeStartId edge)))) False,
                  seg_endPortId = getPortId (Str (edgeEndId edge))
                    (int (length (ins (edgeEndId edge)))) True,
                  seg_parentNodeId =
                    (if getParent g (Str (edgeStartId edge)) = Null then Str kRootNode
                     else getParent g (Str (edgeStartId edge)))\<rparr>"
  have w: "startId ?w = Str (edgeStartId edge)" "endId ?w = Str (edgeEndId edge)" by simp_all
  have own: "\<forall>x \<in> set (fromEdgeSegments ?w @ toEdgeSegments ?w). segmentOf e x" by simp
  note owner = owner_plain [OF ok s root]
  from sliceStep_closing [OF ok w s t ne same edge own root]
  obtain seg chain segs'
    where seg: "seg = \<lparr>seg_index = None, seg_edgeId = e,
                  seg_startPortId = getPortId (Str (edgeStartId edge))
                    (int (length (outPorts ?w (edgeStartId edge))) - 1) False,
                  seg_endPortId = getPortId (Str (edgeEndId edge))
                    (int (length (inPorts ?w (edgeEndId edge)))) True,
                  seg_parentNodeId =
                    (if getParent g (Str (edgeStartId edge)) = Null then Str kRootNode
                     else getParent g (Str (edgeStartId edge)))\<rparr>"
      and chain: "chain = setIndices ((fromEdgeSegments ?w @ [seg]) @ rev (toEdgeSegments ?w))"
      and segs': "pushSegments (edgeSegments ?w) chain = Inr segs'"
      and step: "sliceStep kRootNode g e ?w =
             Some (Inr (Break (?w\<lparr>
               fromEdgeSegments := take (Suc (length (fromEdgeSegments ?w))) chain,
               toEdgeSegments := drop (Suc (length (fromEdgeSegments ?w))) chain,
               inPorts := push (inPorts ?w) (edgeEndId edge)
                 (if firstInPortAssigned ?w then containerInSide g (Str (edgeEndId edge))
                  else map_option sideMap (endSide edge)),
               edgeSegments := segs'\<rparr>)))"
    by blast
  have c: "chain = [?seg]" by (simp add: chain seg setIndices_def push_def)
  from segs' c owner have s': "segs' = push segs (key_of (seg_parentNodeId ?seg)) (toElkEdge ?seg)"
    by simp
  have "sliceLoop kRootNode g e ?w =
          Some (Inr (?w\<lparr>fromEdgeSegments := [?seg], toEdgeSegments := [],
             inPorts := push ins (edgeEndId edge) (map_option sideMap (endSide edge)),
             edgeSegments := segs'\<rparr>))"
    by (subst sliceLoop.simps) (simp add: step c)
  then show ?thesis
    by (simp add: edgeChain_def sliceEdge_def start s')
qed

section \<open>The slicer on the example hierarchies\<close>

lemmas example_defs = newGraphProperties_def exampleGraph_def mkNode_def nodesMap_def
  maxPlus1_def storedHeight_def numeral_2_eq_2

lemmas slicer_defs = sliceEdge_def edgeChain_def startWalk_def getStartId_def getEndId_def
  getStartSide_def getEndSide_def sliceStep_def newELKEdgeSegment_def inPortSide_def
  getOrientation_def push_def tablePush_def setIndices_def toElkEdge_def getPortId_def
  stringOfInt_def stringOfNat.simps emptyTables_def heightLess_def

lemma mkEdge_fields:
  "edge_id (mkEdge i s t) = i" "edgeStartId (mkEdge i s t) = s" "edgeEndId (mkEdge i s t) = t"
  "startSide (mkEdge i s t) = None" "endSide (mkEdge i s t) = None"
  by (simp_all add: mkEdge_def)

lemma example_edge:
  "map_of (gEdges (exampleGraph ns [mkEdge ''e1'' s t] h)) ''e1'' = Some (mkEdge ''e1'' s t)"
  by (simp add: exampleGraph_def edgesObject_def mkEdge_def)

lemma siblingGraph_built: "newGraphProperties 1 siblingNodes es = Some (Inr (siblingGraph es))"
  by (simp add: example_defs siblingGraph_def siblingNodes_def)

lemma nestedGraph_built: "newGraphProperties 2 nestedNodes es = Some (Inr (nestedGraph es))"
  by (simp add: example_defs nestedGraph_def nestedNodes_def)

lemma cousinGraph_built: "newGraphProperties 2 cousinNodes es = Some (Inr (cousinGraph es))"
  by (simp add: example_defs cousinGraph_def cousinNodes_def)

lemma siblingGraph_builtFrom: "builtFrom (siblingGraph es) siblingNodes es"
  unfolding builtFrom_def using siblingGraph_built [of es]
  by (auto simp: siblingNodes_def mkNode_def)

lemma nestedGraph_builtFrom: "builtFrom (nestedGraph es) nestedNodes es"
  unfolding builtFrom_def using nestedGraph_built [of es]
  by (auto simp: nestedNodes_def mkNode_def)

lemma cousinGraph_builtFrom: "builtFrom (cousinGraph es) cousinNodes es"
  unfolding builtFrom_def using cousinGraph_built [of es]
  by (auto simp: cousinNodes_def mkNode_def)

lemma sibling_facts:
  "getParent (siblingGraph es) (Str ''a'') = Null"
  "getParent (siblingGraph es) (Str ''b'') = Null"
  "getHierarchyHeight (siblingGraph es) (Str ''a'') = Some 0"
  "getHierarchyHeight (siblingGraph es) (Str ''b'') = Some 0"
  "map_of (gEdges (siblingGraph [mkEdge ''e1'' s t])) ''e1'' = Some (mkEdge ''e1'' s t)"
  "node_id ` set siblingNodes = {''a'', ''b''}"
  by (simp_all add: getParent_def siblingGraph_def exampleGraph_def parentsMap_def
      siblingNodes_def mkNode_def getHierarchyHeight_def storedHeight_def edgesObject_def
      mkEdge_def)

lemma nested_facts:
  "getParent (nestedGraph es) (Str ''c'') = Null"
  "getParent (nestedGraph es) (Str ''d'') = Str ''c''"
  "getParent (nestedGraph es) (Str ''e'') = Null"
  "getHierarchyHeight (nestedGraph es) (Str ''c'') = Some 1"
  "getHierarchyHeight (nestedGraph es) (Str ''d'') = Some 0"
  "getHierarchyHeight (nestedGraph es) (Str ''e'') = Some 0"
  "map_of (gEdges (nestedGraph [mkEdge ''e1'' s t])) ''e1'' = Some (mkEdge ''e1'' s t)"
  "node_id ` set nestedNodes = {''c'', ''d'', ''e''}"
  "gNodes (nestedGraph es) ''c'' = Some (mkNode ''c'' [''d''] Horizontal)"
  by (simp_all add: getParent_def nestedGraph_def exampleGraph_def parentsMap_def
      nestedNodes_def mkNode_def getHierarchyHeight_def storedHeight_def edgesObject_def
      mkEdge_def nodesMap_def)

lemma cousin_facts:
  "getParent (cousinGraph es) (Str ''a'') = Str ''p''"
  "getParent (cousinGraph es) (Str ''b'') = Str ''q''"
  "getParent (cousinGraph es) (Str ''p'') = Null"
  "getParent (cousinGraph es) (Str ''q'') = Null"
  "getHierarchyHeight (cousinGraph es) (Str ''a'') = Some 0"
  "getHierarchyHeight (cousinGraph es) (Str ''b'') = Some 0"
  "getHierarchyHeight (cousinGraph es) (Str ''p'') = Some 1"
  "getHierarchyHeight (cousinGraph es) (Str ''q'') = Some 1"
  "map_of (gEdges (cousinGraph [mkEdge ''e1'' s t])) ''e1'' = Some (mkEdge ''e1'' s t)"
  "node_id ` set cousinNodes = {''p'', ''q'', ''a'', ''b''}"
  by (simp_all add: getParent_def cousinGraph_def exampleGraph_def parentsMap_def
      cousinNodes_def mkNode_def getHierarchyHeight_def storedHeight_def edgesObject_def
      mkEdge_def)

section \<open>Claims about the edge slicer\<close>







text \<open>
  C3 as stated fails: with \<open>a\<close> in the container \<open>p\<close> and \<open>b\<close> in the container \<open>q\<close>, the
  parents of the two ends of the edge from \<open>a\<close> to \<open>b\<close> differ and have the same height;
  the first iteration moves the start node to \<open>p\<close> and leaves the end node at \<open>b\<close>.
\<close>

theorem equal_heights_only_start_advances:
  "newGraphProperties 2 cousinNodes cousinEdge = Some (Inr (cousinGraph cousinEdge)) \<and>
   getParent (cousinGraph cousinEdge) (Str ''a'') \<noteq> getParent (cousinGraph cousinEdge) (Str ''b'') \<and>
   getHierarchyHeight (cousinGraph cousinEdge) (getParent (cousinGraph cousinEdge) (Str ''a'')) =
     getHierarchyHeight (cousinGraph cousinEdge) (getParent (cousinGraph cousinEdge) (Str ''b'')) \<and>
   (\<exists>w w'. startWalk (cousinGraph cousinEdge) ''e1'' emptyTables = Inr w \<and>
      startId w = Str ''a'' \<and> endId w = Str ''b'' \<and>
      sliceStep ''root'' (cousinGraph cousinEdge) ''e1'' w = Some (Inr (Continue w')) \<and>
      startId w' = Str ''p'' \<and> endId w' = Str ''b'')"
proof (intro conjI)
  show "newGraphProperties 2 cousinNodes cousinEdge = Some (Inr (cousinGraph cousinEdge))"
    by (rule cousinGraph_built)
  show "getParent (cousinGraph cousinEdge) (Str ''a'') \<noteq> getParent (cousinGraph cousinEdge) (Str ''b'')"
    by (simp add: cousin_facts)
  show "getHierarchyHeight (cousinGraph cousinEdge) (getParent (cousinGraph cousinEdge) (Str ''a'')) =
     getHierarchyHeight (cousinGraph cousinEdge) (getParent (cousinGraph cousinEdge) (Str ''b''))"
    by (simp add: cousin_facts)
  show "\<exists>w w'. startWalk (cousinGraph cousinEdge) ''e1'' emptyTables = Inr w \<and>
      startId w = Str ''a'' \<and> endId w = Str ''b'' \<and>
      sliceStep ''root'' (cousinGraph cousinEdge) ''e1'' w = Some (Inr (Continue w')) \<and>
      startId w' = Str ''p'' \<and> endId w' = Str ''b''"
  proof -
    let ?g = "cousinGraph cousinEdge"
    let ?w = "\<lparr>fromEdgeSegments = [], toEdgeSegments = [],
                startId = Str ''a'', endId = Str ''b'',
                firstInPortAssigned = False, edgeSegments = \<lambda>_. [],
                outPorts = push (\<lambda>_. []) ''a'' None, inPorts = \<lambda>_. []\<rparr>"
    have edge: "map_of (gEdges ?g) ''e1'' = Some (mkEdge ''e1'' ''a'' ''b'')"
      by (simp add: cousinEdge_def cousin_facts)
    have start: "startWalk ?g ''e1'' emptyTables = Inr ?w"
      by (simp add: emptyTables_def startWalk_edge [OF edge] mkEdge_fields)
    note ok = builtFrom_hierarchyOk [OF cousinGraph_builtFrom [of cousinEdge] example_plainIds(4)]
    have w: "startId ?w = Str ''a''" "endId ?w = Str ''b''" by simp_all
    have V: "''a'' \<in> node_id ` set cousinNodes" "''b'' \<in> node_id ` set cousinNodes"
      by (simp_all add: cousin_facts)
    have differ: "getParent ?g (Str ''a'') \<noteq> getParent ?g (Str ''b'')"
      by (simp add: cousin_facts)
    have stay: "\<not> endSideAdvances ?g (Str ''a'') (Str ''b'')"
      by (simp add: endSideAdvances_def cousin_facts heightLess_def)
    from sliceStep_start [OF ok w V differ stay, where kRootNode = "''root''" and e = "''e1''"]
    obtain seg p where p: "getParent ?g (Str ''a'') = Str p"
      and step: "sliceStep ''root'' ?g ''e1'' ?w =
           Some (Inr (Continue (?w\<lparr>
             fromEdgeSegments := fromEdgeSegments ?w @ [seg],
             startId := Str p,
             outPorts := push (outPorts ?w) p (ownOutSide ?g (Str p))\<rparr>)))"
      by blast
    from p have "p = ''p''" by (simp add: cousin_facts)
    with start step show ?thesis by simp
  qed
qed

text \<open>
  C3, amended.  Let no node id and no child id be a name that objects inherit.  In an
  iteration of the slicing loop in which the closing condition does not hold, exactly
  one of the two nodes moves to its parent and one segment is added on its side.  The end node moves when the parent of the start node is the root context,
  or the parent of the end node is not and has a smaller height than the parent of the
  start node; in every other case, equal heights included, the start node moves.
\<close>

theorem one_side_advances:
  assumes "builtFrom g ns es" and "plainIds ns"
    and "map_of (gEdges g) e = Some edge"
    and "startId w = Str s" and "endId w = Str t"
    and "s \<in> node_id ` set ns" and "t \<in> node_id ` set ns"
    and "getParent g (Str s) \<noteq> getParent g (Str t)"
  shows "\<exists>w'. sliceStep kRootNode g e w = Some (Inr (Continue w')) \<and>
           (if endSideAdvances g (Str s) (Str t)
            then startId w' = Str s \<and> endId w' = getParent g (Str t) \<and>
                 fromEdgeSegments w' = fromEdgeSegments w \<and>
                 length (toEdgeSegments w') = Suc (length (toEdgeSegments w))
            else startId w' = getParent g (Str s) \<and> endId w' = Str t \<and>
                 toEdgeSegments w' = toEdgeSegments w \<and>
                 length (fromEdgeSegments w') = Suc (length (fromEdgeSegments w))) \<and>
           (getParent g (Str s) \<noteq> Null \<and>
            getHierarchyHeight g (getParent g (Str s)) = getHierarchyHeight g (getParent g (Str t))
            \<longrightarrow> \<not> endSideAdvances g (Str s) (Str t))"
proof -
  note ok = builtFrom_hierarchyOk [OF assms(1,2)]
  have eq: "getParent g (Str s) \<noteq> Null \<and>
            getHierarchyHeight g (getParent g (Str s)) = getHierarchyHeight g (getParent g (Str t))
            \<longrightarrow> \<not> endSideAdvances g (Str s) (Str t)"
    by (simp add: endSideAdvances_def)
  show ?thesis
  proof (cases "endSideAdvances g (Str s) (Str t)")
    case True
    from sliceStep_end [OF ok assms(4,5,6,7,8) True assms(3), where kRootNode = kRootNode]
    obtain w' where "sliceStep kRootNode g e w = Some (Inr (Continue w'))"
      "startId w' = Str s" "endId w' = getParent g (Str t)"
      "fromEdgeSegments w' = fromEdgeSegments w"
      "length (toEdgeSegments w') = Suc (length (toEdgeSegments w))"
      using assms(4) by auto
    with True eq show ?thesis by auto
  next
    case False
    from sliceStep_start [OF ok assms(4,5,6,7,8) False, where kRootNode = kRootNode and e = e]
    obtain w' where "sliceStep kRootNode g e w = Some (Inr (Continue w'))"
      "startId w' = getParent g (Str s)" "endId w' = Str t"
      "toEdgeSegments w' = toEdgeSegments w"
      "length (fromEdgeSegments w') = Suc (length (fromEdgeSegments w))"
      using assms(5) by auto
    with False eq show ?thesis by auto
  qed
qed

theorem one_side_advances_witness:
  "builtFrom (cousinGraph cousinEdge) cousinNodes cousinEdge \<and> plainIds cousinNodes \<and>
   map_of (gEdges (cousinGraph cousinEdge)) ''e1'' = Some (mkEdge ''e1'' ''a'' ''b'') \<and>
   startId cousinWalk = Str ''a'' \<and> endId cousinWalk = Str ''b'' \<and>
   ''a'' \<in> node_id ` set cousinNodes \<and> ''b'' \<in> node_id ` set cousinNodes \<and>
   getParent (cousinGraph cousinEdge) (Str ''a'') \<noteq> getParent (cousinGraph cousinEdge) (Str ''b'') \<and>
   (\<exists>w'. sliceStep ''root'' (cousinGraph cousinEdge) ''e1'' cousinWalk = Some (Inr (Continue w')) \<and>
      startId w' = Str ''p'' \<and> endId w' = Str ''b'' \<and>
      toEdgeSegments w' = [] \<and> length (fromEdgeSegments w') = 1)"
proof -
  let ?g = "cousinGraph cousinEdge"
  have h1: "builtFrom ?g cousinNodes cousinEdge" by (rule cousinGraph_builtFrom)
  have h2: "map_of (gEdges ?g) ''e1'' = Some (mkEdge ''e1'' ''a'' ''b'')"
    by (simp add: cousinEdge_def cousin_facts)
  have h3: "startId cousinWalk = Str ''a''" and h4: "endId cousinWalk = Str ''b''"
    by (simp_all add: cousinWalk_def)
  have h5: "''a'' \<in> node_id ` set cousinNodes" and h6: "''b'' \<in> node_id ` set cousinNodes"
    and h7: "getParent ?g (Str ''a'') \<noteq> getParent ?g (Str ''b'')"
    by (simp_all add: cousin_facts)
  have stay: "\<not> endSideAdvances ?g (Str ''a'') (Str ''b'')"
    by (simp add: endSideAdvances_def cousin_facts heightLess_def)
  have lens: "toEdgeSegments cousinWalk = []" "fromEdgeSegments cousinWalk = []"
    by (simp_all add: cousinWalk_def)
  note p = example_plainIds(4)
  from one_side_advances [OF h1 p h2 h3 h4 h5 h6 h7, of "''root''"]
  obtain w' where "sliceStep ''root'' ?g ''e1'' cousinWalk = Some (Inr (Continue w'))"
    "startId w' = getParent ?g (Str ''a'')" "endId w' = Str ''b''"
    "toEdgeSegments w' = toEdgeSegments cousinWalk"
    "length (fromEdgeSegments w') = Suc (length (fromEdgeSegments cousinWalk))"
    using stay by auto
  with h1 p h2 h3 h4 h5 h6 h7 lens show ?thesis by (simp add: cousin_facts)
qed




section \<open>Draw order\<close>

lemma builtFrom_height_of_node:
  assumes built: "builtFrom g ns es" and plain: "plainIds ns" and n: "n \<in> set ns"
  shows "\<exists>k. getHierarchyHeight g (Str (node_id n)) = Some k \<and>
           (children n = [] \<longrightarrow> k = 0) \<and>
           (children n \<noteq> [] \<longrightarrow>
              (\<forall>c \<in> set (children n). \<exists>j. getHierarchyHeight g (Str c) = Some j) \<and>
              k = Suc (Max ((\<lambda>c. the (getHierarchyHeight g (Str c))) ` set (children n))))"
proof -
  from built obtain depth where dist: "distinct (map node_id ns)"
    and g: "newGraphProperties depth ns es = Some (Inr g)"
    unfolding builtFrom_def by blast
  note inv = newGraphProperties_heights(1) [OF g plain]
  let ?h = "gNodeHierarchyHeights g"
  from newGraphProperties_heights(2) [OF g plain] n obtain kv where kv: "?h (node_id n) = Some kv"
    by auto
  from heightsConsistent_numeric [OF inv kv] obtain k where k: "kv = Some k" by blast
  have get: "getHierarchyHeight g (Str c) = storedHeight ?h c" for c
    by (simp add: getHierarchyHeight_def)
  from inv kv nodesMap_distinct [OF dist n]
  have c: "if children n = [] then kv = Some 0
           else (\<forall>c \<in> set (children n). \<exists>j. ?h c = Some (Some j)) \<and>
                kv = maxPlus1 (map (storedHeight ?h) (children n))"
    unfolding heightsConsistent_def by fastforce
  show ?thesis
  proof (cases "children n = []")
    case True
    with c k kv show ?thesis by (simp add: get storedHeight_def)
  next
    case False
    with c have cs: "\<forall>c \<in> set (children n). \<exists>j. ?h c = Some (Some j)"
      and m: "kv = maxPlus1 (map (storedHeight ?h) (children n))" by simp_all
    from cs have "\<forall>c \<in> set (children n). \<exists>j. getHierarchyHeight g (Str c) = Some j"
      by (auto simp: get storedHeight_def)
    moreover from maxPlus1_numeric [OF cs] m k
    have "k = Suc (Max ((\<lambda>c. the (getHierarchyHeight g (Str c))) ` set (children n)))"
      by (simp add: get)
    ultimately show ?thesis using False k kv by (simp add: get storedHeight_def)
  qed
qed

lemma builtFrom_child_lower:
  assumes built: "builtFrom g ns es" and plain: "plainIds ns"
    and n: "n \<in> set ns" and c: "c \<in> set (children n)"
  shows "\<exists>i j. getHierarchyHeight g (Str c) = Some i \<and>
           getHierarchyHeight g (Str (node_id n)) = Some j \<and> i < j"
proof -
  from built obtain depth where dist: "distinct (map node_id ns)"
    and g: "newGraphProperties depth ns es = Some (Inr g)"
    unfolding builtFrom_def by blast
  note inv = newGraphProperties_heights(1) [OF g plain]
  from newGraphProperties_heights(2) [OF g plain] n
  obtain kv where kv: "gNodeHierarchyHeights g (node_id n) = Some kv" by auto
  from heightsConsistent_child_less [OF inv kv nodesMap_distinct [OF dist n] c] kv
  show ?thesis by (auto simp: getHierarchyHeight_def storedHeight_def)
qed

text \<open>The \<open>z\<close> of the nodes of the graph that \<open>getElkGraph\<close> returns.\<close>

lemma getElkGraph_z:
  assumes "getElkGraph kRootNode ori margin depth ns es = Some (Inr graph)"
  shows "\<exists>g. newGraphProperties depth ns es = Some (Inr g) \<and>
           dom (elkNodes graph) = node_id ` set ns \<and>
           (\<forall>k obj. elkNodes graph k = Some obj \<longrightarrow>
              elk_z obj = negHeight (getHierarchyHeight g (Str k)))"
proof -
  from assms obtain g tables m0 m
    where g: "newGraphProperties depth ns es = Some (Inr g)"
      and m0: "createElkNodes margin g tables ns = Some (Inr m0)"
      and m: "forEach (assignToParent g) m0 ns = Some (Inr m)"
      and m': "forEach (assignEdges tables) m ns = Some (Inr (elkNodes graph))"
    by (auto simp: getElkGraph_def split: option.splits sum.splits)
  let ?Z = "\<lambda>t. \<forall>k obj. t k = Some obj \<longrightarrow> elk_z obj = negHeight (getHierarchyHeight g (Str k))"
  obtain segs outs ins where t: "tables = (segs, outs, ins)" by (cases tables)
  let ?P0 = "\<lambda>t (done :: DagNodeLayoutSpec list). ?Z t \<and> dom t = node_id ` set done"
  have 0: "?P0 m0 ns"
  proof (rule forEach_returned [OF m0 [unfolded createElkNodes_def t prod.case], where P = ?P0])
    show "?P0 Map.empty []" by simp
  next
    fix t x t' "done"
    assume P: "?P0 t done"
      and call: "(if inherited (node_id x) then Some (Inl TypeError)
                  else Some (Inr (t(node_id x \<mapsto>
                    createElkNode margin x (outs (node_id x)) (ins (node_id x)) g)))) =
                 Some (Inr t')"
    then have t': "t' = t(node_id x \<mapsto>
                    createElkNode margin x (outs (node_id x)) (ins (node_id x)) g)"
      by (auto split: if_splits)
    from P show "?P0 t' (done @ [x])"
      by (auto simp: t' createElkNode_def)
  qed
  let ?P = "\<lambda>t (done :: DagNodeLayoutSpec list). ?Z t \<and> dom t = node_id ` set ns"
  have 1: "?P m ns"
  proof (rule forEach_returned [OF m, where P = ?P])
    show "?P m0 []" using 0 by simp
  next
    fix t x t' "done"
    assume P: "?P t done" and call: "assignToParent g t x = Some (Inr t')"
    show "?P t' (done @ [x])"
    proof (cases "getParent g (Str (node_id x)) \<noteq> Null")
      case False
      with call P show ?thesis by (simp add: assignToParent_def)
    next
      case True
      with call obtain parent
        where p: "t (key_of (getParent g (Str (node_id x)))) = Some parent"
          and t': "t' = t(key_of (getParent g (Str (node_id x))) \<mapsto>
                        parent\<lparr>elk_children := elk_children parent @ [node_id x]\<rparr>)"
        by (auto simp: assignToParent_def split: option.splits)
      from P p have "dom t' = node_id ` set ns" unfolding t' by auto
      moreover from P p have "?Z t'" unfolding t' by auto
      ultimately show ?thesis by simp
    qed
  qed
  have 2: "?P (elkNodes graph) ns"
  proof (rule forEach_returned [OF m', where P = ?P])
    show "?P m []" using 1 by simp
  next
    fix t x t' "done"
    assume P: "?P t done" and call: "assignEdges tables t x = Some (Inr t')"
    from call obtain obj where p: "t (node_id x) = Some obj"
      and t': "t' = t(node_id x \<mapsto> obj\<lparr>elk_edges := fst tables (node_id x)\<rparr>)"
      by (auto simp: assignEdges_def split: option.splits)
    from P p have "dom t' = node_id ` set ns" unfolding t' by auto
    moreover from P p have "?Z t'" unfolding t' by auto
    ultimately show "?P t' (done @ [x])" by simp
  qed
  with g show ?thesis by blast
qed

text \<open>What \<open>writeNode\<close> changes: the first node of the id.\<close>

lemma writeNode_result:
  assumes "writeNode i f ns = Inr ns'"
  shows "\<exists>j < length ns. node_id (ns ! j) = i \<and> ns' = ns[j := f (ns ! j)]"
  using assms
proof (induction ns arbitrary: ns')
  case Nil
  then show ?case by simp
next
  case (Cons n ns)
  show ?case
  proof (cases "node_id n = i")
    case True
    with Cons.prems have "ns' = f n # ns" by simp
    with True show ?thesis by (intro exI [of _ 0]) simp
  next
    case False
    with Cons.prems obtain r where r: "writeNode i f ns = Inr r" and ns': "ns' = n # r"
      by (auto split: sum.splits)
    from Cons.IH [OF r] obtain j where "j < length ns" "node_id (ns ! j) = i"
      "r = ns[j := f (ns ! j)]" by blast
    with ns' show ?thesis by (intro exI [of _ "Suc j"]) simp
  qed
qed

lemma placed_z:
  fixes Z :: "string \<Rightarrow> jsnum option"
  shows "elkGraphToNodeTransformsRecurse node cur offset = Inr cur' \<Longrightarrow>
     distinct (map node_id cur) \<Longrightarrow>
     \<forall>c \<in> set (laidNodes node). ln_z c = Z (ln_id c) \<Longrightarrow>
     \<forall>n \<in> set cur. node_id n \<in> W \<longrightarrow> node_z n = Z (node_id n) \<Longrightarrow>
     map node_id cur' = map node_id cur \<and>
     (\<forall>n \<in> set cur'. node_id n \<in> W \<union> ln_id ` set (laidNodes node) \<longrightarrow>
        node_z n = Z (node_id n))"
  and "placeChildren cs cur offset = Inr cur' \<Longrightarrow>
     distinct (map node_id cur) \<Longrightarrow>
     \<forall>c \<in> set (laidNodesOfChildren cs). ln_z c = Z (ln_id c) \<Longrightarrow>
     \<forall>n \<in> set cur. node_id n \<in> W \<longrightarrow> node_z n = Z (node_id n) \<Longrightarrow>
     map node_id cur' = map node_id cur \<and>
     (\<forall>n \<in> set cur'. node_id n \<in> W \<union> ln_id ` set (laidNodesOfChildren cs) \<longrightarrow>
        node_z n = Z (node_id n))"
proof (induction node cur offset and cs cur offset arbitrary: cur' W and cur' W
    rule: elkGraphToNodeTransformsRecurse_placeChildren.induct)
  case (1 i x y w h z edges' cs ns offset)
  from "1.IH" [of cur' W] "1.prems" show ?case by simp
next
  case (2 ns offset)
  then show ?case by simp
next
  case (3 c cs ns offset)
  let ?f = "\<lambda>n. n\<lparr>node_x := Some (js_add (toNum (ln_x c)) (fst offset)),
                     node_y := Some (js_add (toNum (ln_y c)) (snd offset)),
                     node_z := ln_z c, width := ln_width c, height := ln_height c\<rparr>"
  let ?off = "(js_add (toNum (ln_x c)) (fst offset), js_add (toNum (ln_y c)) (snd offset))"
  from "3.prems"(1) obtain ns1 ns2
    where w: "writeNode (ln_id c) ?f ns = Inr ns1"
      and r: "elkGraphToNodeTransformsRecurse c ns1 ?off = Inr ns2"
      and p: "placeChildren cs ns2 offset = Inr cur'"
    by (auto split: sum.splits)
  from writeNode_result [OF w] obtain j where j: "j < length ns" "node_id (ns ! j) = ln_id c"
    and ns1: "ns1 = ns[j := ?f (ns ! j)]" by blast
  have ids1: "map node_id ns1 = map node_id ns"
    unfolding ns1 using j by (simp add: map_update list_update_same_conv)
  from "3.prems"(3) have zc: "ln_z c = Z (ln_id c)"
    and zr: "\<forall>d \<in> set (laidNodes c). ln_z d = Z (ln_id d)"
    and zs: "\<forall>d \<in> set (laidNodesOfChildren cs). ln_z d = Z (ln_id d)" by simp_all
  have inv1: "\<forall>n \<in> set ns1. node_id n \<in> W \<union> {ln_id c} \<longrightarrow> node_z n = Z (node_id n)"
  proof (intro ballI impI)
    fix n assume n: "n \<in> set ns1" and "node_id n \<in> W \<union> {ln_id c}"
    from n obtain k where k: "k < length ns" "n = ns1 ! k" by (auto simp: in_set_conv_nth ns1)
    show "node_z n = Z (node_id n)"
    proof (cases "k = j")
      case True
      with k j ns1 zc show ?thesis by simp
    next
      case False
      with k ns1 have nk: "n = ns ! k" by simp
      have "(map node_id ns ! k = map node_id ns ! j) = (k = j)"
        using "3.prems"(2) k(1) j(1) by (intro nth_eq_iff_index_eq) simp_all
      with False k(1) j(1) have "node_id (ns ! k) \<noteq> node_id (ns ! j)" by simp
      with nk j \<open>node_id n \<in> W \<union> {ln_id c}\<close> have "node_id n \<in> W" by simp
      with "3.prems"(4) nk k show ?thesis by simp
    qed
  qed
  from "3.prems"(2) ids1 have d1: "distinct (map node_id ns1)" by simp
  from "3.IH"(1) [OF w r d1 zr inv1]
  have ids2: "map node_id ns2 = map node_id ns1"
    and inv2: "\<forall>n \<in> set ns2. node_id n \<in> (W \<union> {ln_id c}) \<union> ln_id ` set (laidNodes c) \<longrightarrow>
                 node_z n = Z (node_id n)" by simp_all
  from d1 ids2 have d2: "distinct (map node_id ns2)" by simp
  from "3.IH"(2) [OF w r p d2 zs inv2]
  have "map node_id cur' = map node_id ns2"
    and "\<forall>n \<in> set cur'. node_id n \<in> ((W \<union> {ln_id c}) \<union> ln_id ` set (laidNodes c)) \<union>
             ln_id ` set (laidNodesOfChildren cs) \<longrightarrow> node_z n = Z (node_id n)" by simp_all
  with ids1 ids2 show ?case by (auto simp: Un_assoc)
qed

lemma layout_parts:
  assumes "layout kRootNode ori margin depth elk ns es = Some (Inr (w, h, ns', es'))"
  shows "\<exists>graph laid. getElkGraph kRootNode ori margin depth ns es = Some (Inr graph) \<and>
           elk graph = Inr laid \<and>
           elkGraphToNodeTransforms laid ns = Inr ns' \<and>
           elkGraphToEdgeTransforms laid es = Inr es' \<and>
           w = ln_width laid \<and> h = ln_height laid"
  using assms
  by (auto simp: layout_def layoutElkGraph_def split: option.splits sum.splits)

subsection \<open>The pipeline on the nested example\<close>

lemma nested_tables:
  "getEdgeSegments ''root'' (nestedGraph noLaidEdges) = Some (Inr (\<lambda>_. [], \<lambda>_. [], \<lambda>_. []))"
  by (simp add: getEdgeSegments_def getEdgeIds_def nestedGraph_def exampleGraph_def
      edgesObject_def noLaidEdges_def objectKeys_def)

lemma nested_elk:
  "\<exists>G. getElkGraph ''root'' ''DOWN'' (Num 10) 2 nestedNodes noLaidEdges = Some (Inr G)"
  by (simp add: getElkGraph_def nestedGraph_built nested_tables)
     (simp add: createElkNodes_def nestedNodes_def mkNode_def assignToParent_def
        nested_facts assignEdges_def)

lemma nested_nodes:
  "elkGraphToNodeTransforms laidNested nestedNodes =
     Inr [(mkNode ''c'' [''d''] Horizontal)\<lparr>node_x := Some (Num 0), node_y := Some (Num 0),
            node_z := Some (Num (- 1)), width := Some (Num 40), height := Some (Num 30)\<rparr>,
          (mkNode ''d'' [] Vertical)\<lparr>node_x := Some (Num 5), node_y := Some (Num 5),
            node_z := Some (Num 0), width := Some (Num 20), height := Some (Num 10)\<rparr>,
          (mkNode ''e'' [] Vertical)\<lparr>node_x := Some (Num 0), node_y := Some (Num 50),
            node_z := Some (Num 0), width := Some (Num 20), height := Some (Num 10)\<rparr>]"
  by (simp add: elkGraphToNodeTransforms_def laidNested_def laidLeaf_def nestedNodes_def mkNode_def)

lemma nested_edges:
  "elkGraphToEdgeTransforms laidNested noLaidEdges = Inr []"
  by (simp add: elkGraphToEdgeTransforms_def elkGraphToEdgeGroups_def laidNested_def laidLeaf_def
      noLaidEdges_def objectEntries_def objectKeys_def)

lemma nested_layout:
  "layout ''root'' ''DOWN'' (Num 10) 2 nestedSolver nestedNodes noLaidEdges =
     Some (Inr (Some (Num 100), Some (Num 100),
       [(mkNode ''c'' [''d''] Horizontal)\<lparr>node_x := Some (Num 0), node_y := Some (Num 0),
            node_z := Some (Num (- 1)), width := Some (Num 40), height := Some (Num 30)\<rparr>,
          (mkNode ''d'' [] Vertical)\<lparr>node_x := Some (Num 5), node_y := Some (Num 5),
            node_z := Some (Num 0), width := Some (Num 20), height := Some (Num 10)\<rparr>,
          (mkNode ''e'' [] Vertical)\<lparr>node_x := Some (Num 0), node_y := Some (Num 50),
            node_z := Some (Num 0), width := Some (Num 20), height := Some (Num 10)\<rparr>], []))"
proof -
  from nested_elk obtain G
    where G: "getElkGraph ''root'' ''DOWN'' (Num 10) 2 nestedNodes noLaidEdges = Some (Inr G)"
    by blast
  have w: "ln_width laidNested = Some (Num 100)" "ln_height laidNested = Some (Num 100)"
    by (simp_all add: laidNested_def)
  show ?thesis
    by (simp only: layout_def G option.case sum.case layoutElkGraph_def nestedSolver_def
        nested_nodes nested_edges w)
qed

lemma nested_inPlace:
  assumes "getElkGraph ''root'' ''DOWN'' (Num 10) 2 nestedNodes noLaidEdges = Some (Inr graph)"
  shows "laidInPlace graph laidNested"
proof -
  from getElkGraph_z [OF assms] obtain g
    where g: "newGraphProperties 2 nestedNodes noLaidEdges = Some (Inr g)"
      and dom: "dom (elkNodes graph) = node_id ` set nestedNodes"
      and z: "\<forall>k obj. elkNodes graph k = Some obj \<longrightarrow>
                elk_z obj = negHeight (getHierarchyHeight g (Str k))"
    by blast
  from g nestedGraph_built [of noLaidEdges] have gn: "g = nestedGraph noLaidEdges" by simp
  have ids: "node_id ` set nestedNodes = {''c'', ''d'', ''e''}" by (rule nested_facts)
  have obj: "\<exists>obj. elkNodes graph k = Some obj \<and> Some (Num (- real h)) = Some (elk_z obj)"
    if k: "k \<in> {''c'', ''d'', ''e''}"
      and h: "getHierarchyHeight (nestedGraph noLaidEdges) (Str k) = Some h" for k h
  proof -
    from k dom ids have "k \<in> dom (elkNodes graph)" by simp
    then obtain obj where o: "elkNodes graph k = Some obj" by blast
    with z have "elk_z obj = negHeight (getHierarchyHeight g (Str k))" by blast
    with h gn have "elk_z obj = Num (- real h)" by (simp add: negHeight_def)
    with o show ?thesis by simp
  qed
  have nodes: "laidNodes laidNested =
      [LaidNode ''c'' (Some (Num 0)) (Some (Num 0)) (Some (Num 40)) (Some (Num 30))
          (Some (Num (- 1))) [] [laidLeaf ''d'' 5 5], laidLeaf ''d'' 5 5, laidLeaf ''e'' 0 50]"
    by (simp add: laidNested_def laidLeaf_def)
  have c: "\<exists>obj. elkNodes graph ''c'' = Some obj \<and> Some (Num (- 1)) = Some (elk_z obj)"
    using obj [of "''c''" 1] by (simp add: nested_facts)
  have d: "\<exists>obj. elkNodes graph ''d'' = Some obj \<and> Some (Num 0) = Some (elk_z obj)"
    using obj [of "''d''" 0] by (simp add: nested_facts)
  have e: "\<exists>obj. elkNodes graph ''e'' = Some obj \<and> Some (Num 0) = Some (elk_z obj)"
    using obj [of "''e''" 0] by (simp add: nested_facts)
  have 1: "\<forall>c \<in> set (laidNodes laidNested).
         \<exists>obj. elkNodes graph (ln_id c) = Some obj \<and> ln_z c = Some (elk_z obj)"
    unfolding nodes using c d e by (simp add: laidLeaf_def)
  have 2: "dom (elkNodes graph) \<subseteq> ln_id ` set (laidNodes laidNested)"
    unfolding nodes dom ids by (simp add: laidLeaf_def)
  from 1 2 show ?thesis unfolding laidInPlace_def by (rule conjI)
qed

lemma ex_all_pairD:
  assumes "\<exists>g. A g \<and> B \<and> (\<forall>i<n. C g i \<and> D g i \<and> (\<forall>j<n. E i j \<longrightarrow> F i j))"
    and "i < (n::nat)" and "j < n" and "E i j"
  shows "F i j"
  using assms by blast



section \<open>Reassembly of the edges\<close>

lemma elkEdgeToPointArray_points:
  assumes "elkEdgeToPointArray edge offset = Inr pts"
  shows "pts = map (translate offset) (rawPoints edge)" and "2 \<le> length pts"
  using assms
  by (auto simp: elkEdgeToPointArray_def rawPoints_def split: list.splits option.splits)

lemma slicesIn_addSlice:
  assumes "addSlice groups k z slice = Inr groups'"
  shows "slicesIn groups' e =
     (if e = k then slicesIn groups e @ [slice] else slicesIn groups e)"
  using assms
  by (auto simp: slicesIn_def addSlice_def update_conv' split: option.splits if_splits)

lemma addSlice_returns:
  assumes "\<not> inherited k"
  shows "\<exists>groups'. addSlice groups k z slice = Inr groups'"
  using assms by (auto simp: addSlice_def split: option.splits)

text \<open>Every group holds a slice.\<close>

lemma addSlice_nonempty:
  assumes "addSlice groups k z slice = Inr groups'"
    and "\<forall>k z sl. map_of groups k = Some (z, sl) \<longrightarrow> sl \<noteq> []"
  shows "\<forall>k z sl. map_of groups' k = Some (z, sl) \<longrightarrow> sl \<noteq> []"
proof (intro allI impI)
  fix k' z' sl assume m: "map_of groups' k' = Some (z', sl)"
  show "sl \<noteq> []"
  proof (cases "k' = k")
    case True
    with assms(1) m show ?thesis
      by (auto simp: addSlice_def update_conv' split: option.splits if_splits)
  next
    case False
    with assms(1) m have "map_of groups k' = Some (z', sl)"
      by (auto simp: addSlice_def update_conv' split: option.splits if_splits)
    with assms(2) show ?thesis by blast
  qed
qed

lemma groupEdges_slices:
  assumes "groupEdges es groups offset = Inr groups'"
  shows "slicesIn groups' e = slicesIn groups e @ ownSlices e es offset"
  using assms
proof (induction es arbitrary: groups)
  case Nil
  then show ?case by (simp add: ownSlices_def)
next
  case (Cons edge es)
  from Cons.prems obtain pts g1 where pts: "elkEdgeToPointArray edge offset = Inr pts"
    and g1: "addSlice groups (le_edgeId edge) (le_z edge) (pts, le_index edge) = Inr g1"
    and rest: "groupEdges es g1 offset = Inr groups'"
    by (auto split: sum.splits)
  from Cons.IH [OF rest] elkEdgeToPointArray_points(1) [OF pts]
  show ?case by (simp add: slicesIn_addSlice [OF g1] ownSlices_def)
qed

lemma groupEdges_nonempty:
  assumes "groupEdges es groups offset = Inr groups'"
    and "\<forall>k z sl. map_of groups k = Some (z, sl) \<longrightarrow> sl \<noteq> []"
  shows "\<forall>k z sl. map_of groups' k = Some (z, sl) \<longrightarrow> sl \<noteq> []"
  using assms
proof (induction es arbitrary: groups)
  case Nil
  then show ?case by simp
next
  case (Cons edge es)
  from Cons.prems(1) obtain pts g1 where pts: "elkEdgeToPointArray edge offset = Inr pts"
    and g1: "addSlice groups (le_edgeId edge) (le_z edge) (pts, le_index edge) = Inr g1"
    and rest: "groupEdges es g1 offset = Inr groups'"
    by (auto split: sum.splits)
  from Cons.IH [OF rest addSlice_nonempty [OF g1 Cons.prems(2)]] show ?case .
qed

lemma groupEdges_returns:
  assumes "\<forall>edge \<in> set es. le_sections edge \<noteq> [] \<and> \<not> inherited (le_edgeId edge)"
  shows "\<exists>groups'. groupEdges es groups offset = Inr groups'"
  using assms
proof (induction es arbitrary: groups)
  case Nil
  then show ?case by simp
next
  case (Cons edge es)
  from Cons.prems have sec: "le_sections edge \<noteq> []" and own: "\<not> inherited (le_edgeId edge)"
    by simp_all
  from sec obtain pts where pts: "elkEdgeToPointArray edge offset = Inr pts"
    by (cases "le_sections edge") (auto simp: elkEdgeToPointArray_def)
  from addSlice_returns [OF own] obtain g1
    where g1: "addSlice groups (le_edgeId edge) (le_z edge) (pts, le_index edge) = Inr g1"
    by blast
  from Cons.IH [of g1] Cons.prems obtain groups' where "groupEdges es g1 offset = Inr groups'"
    by auto
  with pts g1 show ?case by simp
qed

lemma recurse_slices:
  "elkGraphToEdgeGroupsRecurse node groups offset = Inr groups' \<Longrightarrow>
     slicesIn groups' e = slicesIn groups e @ slicesOf e node offset"
  "groupChildren cs groups offset = Inr groups' \<Longrightarrow>
     slicesIn groups' e = slicesIn groups e @ slicesOfChildren e cs offset"
proof (induction node groups offset and cs groups offset arbitrary: groups' and groups'
    rule: elkGraphToEdgeGroupsRecurse_groupChildren.induct)
  case (1 i x y w h z edges' cs groups offset)
  from "1.prems" obtain g1 where g1: "groupEdges edges' groups offset = Inr g1"
    and rest: "groupChildren cs g1 offset = Inr groups'"
    by (auto split: sum.splits)
  from "1.IH" [OF g1 rest] groupEdges_slices [OF g1, of e] show ?case by simp
next
  case (2 groups offset)
  then show ?case by simp
next
  case (3 c cs groups offset)
  from "3.prems" obtain g1
    where g1: "elkGraphToEdgeGroupsRecurse c groups
             (js_add (fst offset) (toNum (ln_x c)), js_add (snd offset) (toNum (ln_y c))) = Inr g1"
      and rest: "groupChildren cs g1 offset = Inr groups'"
    by (auto split: sum.splits)
  from "3.IH"(1) [OF g1] "3.IH"(2) [OF g1 rest] show ?case by simp
qed

lemma recurse_nonempty:
  "elkGraphToEdgeGroupsRecurse node groups offset = Inr groups' \<Longrightarrow>
     \<forall>k z sl. map_of groups k = Some (z, sl) \<longrightarrow> sl \<noteq> [] \<Longrightarrow>
     \<forall>k z sl. map_of groups' k = Some (z, sl) \<longrightarrow> sl \<noteq> []"
  "groupChildren cs groups offset = Inr groups' \<Longrightarrow>
     \<forall>k z sl. map_of groups k = Some (z, sl) \<longrightarrow> sl \<noteq> [] \<Longrightarrow>
     \<forall>k z sl. map_of groups' k = Some (z, sl) \<longrightarrow> sl \<noteq> []"
proof (induction node groups offset and cs groups offset arbitrary: groups' and groups'
    rule: elkGraphToEdgeGroupsRecurse_groupChildren.induct)
  case (1 i x y w h z edges' cs groups offset)
  from "1.prems"(1) obtain g1 where g1: "groupEdges edges' groups offset = Inr g1"
    and rest: "groupChildren cs g1 offset = Inr groups'"
    by (auto split: sum.splits)
  from "1.IH" [OF g1 rest groupEdges_nonempty [OF g1 "1.prems"(2)]] show ?case .
next
  case (2 groups offset)
  then show ?case by simp
next
  case (3 c cs groups offset)
  from "3.prems"(1) obtain g1
    where g1: "elkGraphToEdgeGroupsRecurse c groups
             (js_add (fst offset) (toNum (ln_x c)), js_add (snd offset) (toNum (ln_y c))) = Inr g1"
      and rest: "groupChildren cs g1 offset = Inr groups'"
    by (auto split: sum.splits)
  from "3.IH"(2) [OF g1 rest "3.IH"(1) [OF g1 "3.prems"(2)]] show ?case .
qed

lemma recurse_returns:
  "\<forall>edge \<in> set (laidEdges node). le_sections edge \<noteq> [] \<and> \<not> inherited (le_edgeId edge) \<Longrightarrow>
     \<exists>groups'. elkGraphToEdgeGroupsRecurse node groups offset = Inr groups'"
  "\<forall>edge \<in> set (laidEdgesOfChildren cs). le_sections edge \<noteq> [] \<and> \<not> inherited (le_edgeId edge) \<Longrightarrow>
     \<exists>groups'. groupChildren cs groups offset = Inr groups'"
proof (induction node groups offset and cs groups offset
    rule: elkGraphToEdgeGroupsRecurse_groupChildren.induct)
  case (1 i x y w h z edges' cs groups offset)
  from "1.prems"
  have a: "\<forall>edge \<in> set edges'. le_sections edge \<noteq> [] \<and> \<not> inherited (le_edgeId edge)"
    and b: "\<forall>edge \<in> set (laidEdgesOfChildren cs).
              le_sections edge \<noteq> [] \<and> \<not> inherited (le_edgeId edge)"
    by simp_all
  from groupEdges_returns [OF a] obtain g1 where g1: "groupEdges edges' groups offset = Inr g1"
    by blast
  from "1.IH" [OF g1 b] g1 show ?case by simp
next
  case (2 groups offset)
  show ?case by simp
next
  case (3 c cs groups offset)
  from "3.prems"
  have a: "\<forall>edge \<in> set (laidEdges c). le_sections edge \<noteq> [] \<and> \<not> inherited (le_edgeId edge)"
    and b: "\<forall>edge \<in> set (laidEdgesOfChildren cs).
              le_sections edge \<noteq> [] \<and> \<not> inherited (le_edgeId edge)"
    by simp_all
  from "3.IH"(1) [OF a] obtain g1
    where g1: "elkGraphToEdgeGroupsRecurse c groups
             (js_add (fst offset) (toNum (ln_x c)), js_add (snd offset) (toNum (ln_y c))) = Inr g1"
    by blast
  from "3.IH"(2) [OF g1 b] g1 show ?case by simp
qed

text \<open>An edge that has a segment in the laid-out graph has a slice.\<close>

lemma slicesOf_laid:
  "e \<in> le_edgeId ` set (laidEdges node) \<Longrightarrow> slicesOf e node offset \<noteq> []"
  "e \<in> le_edgeId ` set (laidEdgesOfChildren cs) \<Longrightarrow> slicesOfChildren e cs offset \<noteq> []"
proof (induction e node offset and e cs offset rule: slicesOf_slicesOfChildren.induct)
  case (1 e i x y w h z es cs offset)
  then show ?case by (auto simp: ownSlices_def filter_empty_conv)
next
  case (2 e offset)
  then show ?case by simp
next
  case (3 e c cs offset)
  then show ?case by auto
qed

lemma set_objectKeys: "set (objectKeys al) = fst ` set al"
  by (auto simp: objectKeys_def)

lemma unifyGroups_lookup:
  assumes "unifyGroups ents t = Inr t'"
    and "\<forall>(k, v) \<in> set ents. v = f k"
  shows "map_of t' k =
           (if k \<in> fst ` set ents
            then (case unifyGroup (snd (f k)) of
                    Inr newEdge \<Rightarrow> Some (newEdge, fst (f k)) | Inl e \<Rightarrow> None)
            else map_of t k)"
  using assms
proof (induction ents arbitrary: t)
  case Nil
  then show ?case by simp
next
  case (Cons ent ents)
  obtain k0 z0 sl0 where ent: "ent = (k0, (z0, sl0))" by (cases ent) auto
  from Cons.prems(2) ent have f0: "f k0 = (z0, sl0)" by simp
  from Cons.prems(1) ent obtain ne where ne: "unifyGroup sl0 = Inr ne"
    and rest: "unifyGroups ents (AList.update k0 (ne, z0) t) = Inr t'"
    by (auto split: sum.splits)
  from Cons.prems(2) have "\<forall>(k, v) \<in> set ents. v = f k" by simp
  from Cons.IH [OF rest this] ent f0 ne show ?case
    by (auto simp: update_conv')
qed

lemma unifyGroups_returns:
  assumes "\<forall>(k, z, sl) \<in> set ents. sl \<noteq> []"
  shows "\<exists>t'. unifyGroups ents t = Inr t'"
  using assms
proof (induction ents arbitrary: t)
  case Nil
  then show ?case by simp
next
  case (Cons ent ents)
  obtain k0 z0 sl0 where ent: "ent = (k0, (z0, sl0))" by (cases ent) auto
  with Cons.prems have "sl0 \<noteq> []" by simp
  then have "sort_key snd sl0 \<noteq> []" by (metis length_0_conv length_sort)
  then obtain ne where ne: "unifyGroup sl0 = Inr ne"
    by (cases "sort_key snd sl0") (simp_all add: unifyGroup_def)
  from Cons.prems have "\<forall>(k, z, sl) \<in> set ents. sl \<noteq> []" by simp
  from Cons.IH [OF this, of "AList.update k0 (ne, z0) t"] ent ne show ?case by simp
qed

lemma writeEdges_returns:
  assumes "\<forall>spec \<in> set es. map_of transforms (edge_id spec) \<noteq> None"
  shows "\<exists>es'. writeEdges transforms es = Inr es'"
  using assms by (induction es) auto

lemma writeEdges_result:
  assumes "writeEdges transforms es = Inr es'"
    and "\<forall>spec \<in> set es. \<not> inherited (edge_id spec)"
  shows "length es' = length es \<and>
         (\<forall>i < length es. \<exists>pts z. map_of transforms (edge_id (es ! i)) = Some (pts, z) \<and>
            es' ! i = (es ! i)\<lparr>edge_points := Some pts, edge_z := z\<rparr>)"
  using assms
proof (induction es arbitrary: es')
  case Nil
  then show ?case by simp
next
  case (Cons spec es)
  from Cons.prems obtain pts z rest'
    where t: "map_of transforms (edge_id spec) = Some (pts, z)"
      and rest: "writeEdges transforms es = Inr rest'"
      and es': "es' = spec\<lparr>edge_points := Some pts, edge_z := z\<rparr> # rest'"
    by (auto split: option.splits sum.splits)
  from Cons.prems(2) have "\<forall>spec \<in> set es. \<not> inherited (edge_id spec)" by simp
  from Cons.IH [OF rest this] have len: "length rest' = length es"
    and each: "\<forall>i < length es. \<exists>pts z. map_of transforms (edge_id (es ! i)) = Some (pts, z) \<and>
            rest' ! i = (es ! i)\<lparr>edge_points := Some pts, edge_z := z\<rparr>" by simp_all
  show ?case
  proof (intro conjI allI impI)
    show "length es' = length (spec # es)" using len es' by simp
  next
    fix i assume "i < length (spec # es)"
    then show "\<exists>pts z. map_of transforms (edge_id ((spec # es) ! i)) = Some (pts, z) \<and>
            es' ! i = ((spec # es) ! i)\<lparr>edge_points := Some pts, edge_z := z\<rparr>"
      using t es' each by (cases i) auto
  qed
qed

lemma groupEdges_points:
  assumes "groupEdges es groups offset = Inr groups'"
  shows "\<forall>s \<in> set (ownSlices e es offset). 2 \<le> length (fst s)"
  using assms
proof (induction es arbitrary: groups)
  case Nil
  then show ?case by (simp add: ownSlices_def)
next
  case (Cons edge es)
  from Cons.prems obtain pts g1 where pts: "elkEdgeToPointArray edge offset = Inr pts"
    and g1: "addSlice groups (le_edgeId edge) (le_z edge) (pts, le_index edge) = Inr g1"
    and rest: "groupEdges es g1 offset = Inr groups'"
    by (auto split: sum.splits)
  from Cons.IH [OF rest] elkEdgeToPointArray_points [OF pts]
  show ?case by (auto simp: ownSlices_def)
qed

lemma recurse_points:
  "elkGraphToEdgeGroupsRecurse node groups offset = Inr groups' \<Longrightarrow>
     \<forall>s \<in> set (slicesOf e node offset). 2 \<le> length (fst s)"
  "groupChildren cs groups offset = Inr groups' \<Longrightarrow>
     \<forall>s \<in> set (slicesOfChildren e cs offset). 2 \<le> length (fst s)"
proof (induction node groups offset and cs groups offset arbitrary: groups' and groups'
    rule: elkGraphToEdgeGroupsRecurse_groupChildren.induct)
  case (1 i x y w h z edges' cs groups offset)
  from "1.prems" obtain g1 where g1: "groupEdges edges' groups offset = Inr g1"
    and rest: "groupChildren cs g1 offset = Inr groups'"
    by (auto split: sum.splits)
  from "1.IH" [OF g1 rest] groupEdges_points [OF g1, of e] show ?case by auto
next
  case (2 groups offset)
  then show ?case by simp
next
  case (3 c cs groups offset)
  from "3.prems" obtain g1
    where g1: "elkGraphToEdgeGroupsRecurse c groups
             (js_add (fst offset) (toNum (ln_x c)), js_add (snd offset) (toNum (ln_y c))) = Inr g1"
      and rest: "groupChildren cs g1 offset = Inr groups'"
    by (auto split: sum.splits)
  from "3.IH"(1) [OF g1] "3.IH"(2) [OF g1 rest] show ?case by auto
qed

lemma dropped_points:
  assumes "\<forall>s \<in> set rest. 1 \<le> length (fst s)"
  shows "length (concat (map (\<lambda>s. tl (fst s)) rest)) + length rest =
         sum_list (map (\<lambda>s. length (fst s)) rest)"
  using assms by (induction rest) auto

lemma laidExample_edges:
  "elkGraphToEdgeTransforms laidExample laidExampleEdges =
     Inr [(hd laidExampleEdges)\<lparr>
            edge_points := Some [Some (Num 10, Num 20), Some (Num 12, Num 20),
                                 Some (Num 15, Num 25), Some (Num 30, Num 30)],
            edge_z := Some (Num 0)\<rparr>]"
  by (simp add: elkGraphToEdgeTransforms_def elkGraphToEdgeGroups_def laidExample_def
      laidExampleEdges_def mkLaidEdge_def elkEdgeToPointArray_def translate_def addSlice_def
      objectEntries_def objectKeys_def isArrayIndex_def unifyGroup_def)

lemma reassembled_when_returned:
  assumes "elkGraphToEdgeTransforms graph es = Inr es'" and "i < length es"
    and own: "\<forall>spec \<in> set es. \<not> inherited (edge_id spec)"
  shows "\<exists>first rest.
           sort_key snd (slicesOf (edge_id (es ! i)) graph (Num 0, Num 0)) = first # rest \<and>
           sorted (map snd (first # rest)) \<and>
           edge_points (es' ! i) =
             Some (map Some (fst first @ concat (map (\<lambda>s. tl (fst s)) rest))) \<and>
           length (fst first @ concat (map (\<lambda>s. tl (fst s)) rest)) + length rest =
             sum_list (map (\<lambda>s. length (fst s)) (first # rest)) \<and>
           length es' = length es"
proof -
  let ?e = "edge_id (es ! i)"
  from assms(1) obtain groups transforms
    where groups: "elkGraphToEdgeGroupsRecurse graph [] (Num 0, Num 0) = Inr groups"
      and unify: "unifyGroups (objectEntries groups) [] = Inr transforms"
      and wr: "writeEdges transforms es = Inr es'"
    by (auto simp: elkGraphToEdgeTransforms_def elkGraphToEdgeGroups_def split: sum.splits)
  from recurse_slices(1) [OF groups, of ?e]
  have slices: "slicesIn groups ?e = slicesOf ?e graph (Num 0, Num 0)"
    by (simp add: slicesIn_def)
  from writeEdges_result [OF wr own] assms(2) obtain pts z
    where len: "length es' = length es"
      and t: "map_of transforms ?e = Some (pts, z)"
      and spec: "es' ! i = (es ! i)\<lparr>edge_points := Some pts, edge_z := z\<rparr>"
    by blast
  have ents: "\<forall>(k, v) \<in> set (objectEntries groups). v = the (map_of groups k)"
    by (auto simp: objectEntries_def)
  have "fst ` set (objectEntries groups) = set (objectKeys groups)"
    by (simp add: objectEntries_def image_image)
  then have keys: "fst ` set (objectEntries groups) = fst ` set groups"
    by (simp only: set_objectKeys)
  note look = unifyGroups_lookup [OF unify ents, of ?e, unfolded keys t]
  have key: "?e \<in> fst ` set groups"
  proof (rule ccontr)
    assume "?e \<notin> fst ` set groups"
    with look show False by simp
  qed
  with look have "Some (pts, z) =
      (case unifyGroup (snd (the (map_of groups ?e))) of
         Inr newEdge \<Rightarrow> Some (newEdge, fst (the (map_of groups ?e))) | Inl e \<Rightarrow> None)"
    by simp
  then have u: "unifyGroup (snd (the (map_of groups ?e))) = Inr pts"
    by (cases "unifyGroup (snd (the (map_of groups ?e)))") simp_all
  from key have "map_of groups ?e \<noteq> None" by (simp add: map_of_eq_None_iff)
  then obtain z0 sl where g: "map_of groups ?e = Some (z0, sl)" by auto
  with slices have sl: "sl = slicesOf ?e graph (Num 0, Num 0)" by (simp add: slicesIn_def)
  from u g have u': "unifyGroup sl = Inr pts" by simp
  obtain first rest where sorted: "sort_key snd sl = first # rest"
    using u' by (cases "sort_key snd sl") (simp_all add: unifyGroup_def)
  with u' have p: "pts = (case fst first of [] \<Rightarrow> None | p # _ \<Rightarrow> Some p) #
                  map Some (concat (map (\<lambda>slice. tl (fst slice)) (first # rest)))"
    by (simp add: unifyGroup_def)
  have "set (sort_key snd sl) = set sl" by simp
  then have "set (first # rest) = set sl" by (simp only: sorted)
  with recurse_points(1) [OF groups, of ?e] sl
  have two: "\<forall>s \<in> set (first # rest). 2 \<le> length (fst s)" by simp
  then obtain q qs where q: "fst first = q # qs" by (cases "fst first") auto
  with p have pts: "pts = map Some (fst first @ concat (map (\<lambda>s. tl (fst s)) rest))" by simp
  from two have "\<forall>s \<in> set rest. 1 \<le> length (fst s)" by auto
  from dropped_points [OF this]
  have count: "length (fst first @ concat (map (\<lambda>s. tl (fst s)) rest)) + length rest =
             sum_list (map (\<lambda>s. length (fst s)) (first # rest))" by simp
  have "sorted (map snd (sort_key snd sl))" by (rule sorted_sort_key)
  with sorted have srt: "sorted (map snd (first # rest))" by simp
  have pe: "edge_points (es' ! i) =
      Some (map Some (fst first @ concat (map (\<lambda>s. tl (fst s)) rest)))"
    by (simp add: spec pts)
  from sorted sl have s1: "sort_key snd (slicesOf ?e graph (Num 0, Num 0)) = first # rest"
    by simp
  from s1 srt pe count len show ?thesis by blast
qed

text \<open>When every segment has a section and an id that is not inherited, and every edge
  has a segment, the reassembly returns.\<close>

lemma reassembly_returns:
  assumes laid: "\<forall>edge \<in> set (laidEdges graph).
                   le_sections edge \<noteq> [] \<and> \<not> inherited (le_edgeId edge)"
    and all: "\<forall>spec \<in> set es. edge_id spec \<in> le_edgeId ` set (laidEdges graph)"
  shows "\<exists>es'. elkGraphToEdgeTransforms graph es = Inr es'"
proof -
  from recurse_returns(1) [OF laid] obtain groups
    where groups: "elkGraphToEdgeGroupsRecurse graph [] (Num 0, Num 0) = Inr groups" by blast
  from recurse_nonempty(1) [OF groups]
  have ne: "\<forall>k z sl. map_of groups k = Some (z, sl) \<longrightarrow> sl \<noteq> []" by simp
  have keys: "set (objectKeys groups) = fst ` set groups" by (rule set_objectKeys)
  have "\<forall>(k, z, sl) \<in> set (objectEntries groups). sl \<noteq> []"
  proof (clarify)
    fix k z assume "(k, z, []) \<in> set (objectEntries groups)"
    then have k: "k \<in> fst ` set groups" and v: "the (map_of groups k) = (z, [])"
      by (auto simp: objectEntries_def keys)
    from k have "map_of groups k \<noteq> None" by (simp add: map_of_eq_None_iff)
    with v have "map_of groups k = Some (z, [])" by auto
    with ne show False by blast
  qed
  from unifyGroups_returns [OF this] obtain transforms
    where unify: "unifyGroups (objectEntries groups) [] = Inr transforms" by blast
  have ents: "\<forall>(k, v) \<in> set (objectEntries groups). v = the (map_of groups k)"
    by (auto simp: objectEntries_def)
  have ekeys: "fst ` set (objectEntries groups) = fst ` set groups"
    by (simp add: objectEntries_def image_image keys)
  have "map_of transforms (edge_id spec) \<noteq> None" if spec: "spec \<in> set es" for spec
  proof -
    let ?e = "edge_id spec"
    from all spec have "?e \<in> le_edgeId ` set (laidEdges graph)" by blast
    from slicesOf_laid(1) [OF this, of "(Num 0, Num 0)"] recurse_slices(1) [OF groups, of ?e]
    have "slicesIn groups ?e \<noteq> []" by (simp add: slicesIn_def)
    then obtain v where v: "map_of groups ?e = Some v"
      by (cases "map_of groups ?e") (simp_all add: slicesIn_def)
    then have key: "?e \<in> fst ` set groups" by (metis map_of_eq_None_iff option.distinct(1))
    obtain z sl where zsl: "v = (z, sl)" by (cases v)
    with v ne have "sl \<noteq> []" by blast
    then have "sort_key snd sl \<noteq> []" by (metis length_0_conv length_sort)
    then obtain pts where "unifyGroup sl = Inr pts"
      by (cases "sort_key snd sl") (simp_all add: unifyGroup_def)
    with unifyGroups_lookup [OF unify ents, of ?e] key v zsl show ?thesis
      by (simp add: ekeys)
  qed
  then have "\<forall>spec \<in> set es. map_of transforms (edge_id spec) \<noteq> None" by blast
  from writeEdges_returns [OF this] groups unify show ?thesis
    by (simp add: elkGraphToEdgeTransforms_def elkGraphToEdgeGroups_def)
qed

lemma laidExample_laid:
  "\<forall>edge \<in> set (laidEdges laidExample). le_sections edge \<noteq> [] \<and> \<not> inherited (le_edgeId edge)"
  "\<forall>spec \<in> set laidExampleEdges. edge_id spec \<in> le_edgeId ` set (laidEdges laidExample)"
  by (simp_all add: laidExample_def laidExampleEdges_def mkLaidEdge_def)



section \<open>Size reports\<close>

text \<open>
  C7.  A size report for a node whose previous width and height are both defined, and
  whose width and height differ from them by less than the tolerance of 5 in absolute
  value, returns the state it was given: no size is stored and \<open>shouldLayout\<close> is not set.
\<close>

theorem onNodeResize_within_tolerance:
  assumes "nodes st nodeId = Some n"
    and "width n = Some pw" and "height n = Some ph"
    and "js_lt (js_abs (js_sub pw w)) (Num 5)"
    and "js_lt (js_abs (js_sub ph h)) (Num 5)"
  shows "onNodeResize st nodeId w h = Inr st"
  using assms by (simp add: onNodeResize_def withinTolerance_def kNodeResizeTolerance_def)

theorem onNodeResize_within_tolerance_witness:
  "nodes stateA ''a'' = Some leafA \<and> width leafA = Some (Num 100) \<and>
   height leafA = Some (Num 40) \<and>
   js_lt (js_abs (js_sub (Num 100) (Num 100.4))) (Num 5) \<and>
   js_lt (js_abs (js_sub (Num 40) (Num 40))) (Num 5) \<and>
   onNodeResize stateA ''a'' (Num 100.4) (Num 40) = Inr stateA"
proof -
  have a: "nodes stateA ''a'' = Some leafA" by (simp add: stateA_def)
  have b: "width leafA = Some (Num 100)" by (simp add: leafA_def)
  have c: "height leafA = Some (Num 40)" by (simp add: leafA_def)
  have d: "js_lt (js_abs (js_sub (Num 100) (Num 100.4))) (Num 5)" by simp
  have e: "js_lt (js_abs (js_sub (Num 40) (Num 40))) (Num 5)" by simp
  from onNodeResize_within_tolerance [OF a b c d e] a b c d e show ?thesis by blast
qed

text \<open>
  C9 as stated fails: a negative width is stored as reported.  The node \<open>a\<close> was measured
  100 by 40; the report \<open>(-10, 40)\<close> leaves \<open>-10\<close> as its width.
\<close>

theorem onNodeResize_negative_stored:
  "map_sum id (\<lambda>st'. map_option width (nodes st' ''a'')) (onNodeResize stateA ''a'' (Num (-10)) (Num 40))
     = Inr (Some (Some (Num (-10))))"
  by (simp add: onNodeResize_def withinTolerance_def kNodeResizeTolerance_def stateA_def leafA_def)

text \<open>
  C9, amended.  A size report for a node of the state is ignored exactly when it is
  within the tolerance, that is when the previous width and height are both defined and
  the reported width and height each differ from them by less than 5 in absolute value;
  then the state is returned as it was, and neither reported number is \<open>NaN\<close>.  Every
  other report is stored exactly as it is, negative numbers and \<open>NaN\<close> included, and
  \<open>shouldLayout\<close> is set.  No value is clamped.
\<close>

theorem onNodeResize_stores_report:
  assumes "nodes st nodeId = Some n"
  shows "\<exists>st'. onNodeResize st nodeId w h = Inr st' \<and>
           (withinTolerance (width n) (height n) w h \<and> st' = st \<and> w \<noteq> NaN \<and> h \<noteq> NaN \<or>
            \<not> withinTolerance (width n) (height n) w h \<and> shouldLayout st' \<and>
            map_option width (nodes st' nodeId) = Some (Some w) \<and>
            map_option height (nodes st' nodeId) = Some (Some h)) \<and>
           (withinTolerance (width n) (height n) w h \<longleftrightarrow>
              (\<exists>pw ph. width n = Some pw \<and> height n = Some ph \<and>
                 js_lt (js_abs (js_sub pw w)) (Num 5) \<and> js_lt (js_abs (js_sub ph h)) (Num 5)))"
proof -
  have iff: "withinTolerance (width n) (height n) w h \<longleftrightarrow>
              (\<exists>pw ph. width n = Some pw \<and> height n = Some ph \<and>
                 js_lt (js_abs (js_sub pw w)) (Num 5) \<and> js_lt (js_abs (js_sub ph h)) (Num 5))"
    by (auto simp: withinTolerance_def kNodeResizeTolerance_def split: option.splits)
  have "\<exists>st'. onNodeResize st nodeId w h = Inr st' \<and>
           (withinTolerance (width n) (height n) w h \<and> st' = st \<and> w \<noteq> NaN \<and> h \<noteq> NaN \<or>
            \<not> withinTolerance (width n) (height n) w h \<and> shouldLayout st' \<and>
            map_option width (nodes st' nodeId) = Some (Some w) \<and>
            map_option height (nodes st' nodeId) = Some (Some h))"
  proof (cases "withinTolerance (width n) (height n) w h")
    case True
    with iff obtain pw ph where p: "width n = Some pw" "height n = Some ph"
      and lt: "js_lt (js_abs (js_sub pw w)) (Num 5)" "js_lt (js_abs (js_sub ph h)) (Num 5)"
      by blast
    have "w \<noteq> NaN" using lt(1) by (cases pw; cases w) auto
    moreover have "h \<noteq> NaN" using lt(2) by (cases ph; cases h) auto
    ultimately show ?thesis using assms True by (simp add: onNodeResize_def)
  next
    case False
    then show ?thesis using assms by (simp add: onNodeResize_def)
  qed
  with iff show ?thesis by blast
qed

theorem onNodeResize_stores_report_witness:
  "nodes stateA ''a'' = Some leafA \<and>
   \<not> withinTolerance (width leafA) (height leafA) NaN (Num (- 3)) \<and>
   (\<exists>st'. onNodeResize stateA ''a'' NaN (Num (- 3)) = Inr st' \<and>
      shouldLayout st' \<and>
      map_option width (nodes st' ''a'') = Some (Some NaN) \<and>
      map_option height (nodes st' ''a'') = Some (Some (Num (- 3))))"
proof -
  have a: "nodes stateA ''a'' = Some leafA" by (simp add: stateA_def)
  have b: "\<not> withinTolerance (width leafA) (height leafA) NaN (Num (- 3))"
    by (simp add: withinTolerance_def leafA_def)
  from onNodeResize_stores_report [OF a, of NaN "Num (- 3)"] a b show ?thesis by auto
qed

end
